theory Spec2Isabelle
  imports Complex_Main
begin

section \<open>GridWorld environment\<close>

text \<open>
  Three notebooks are modelled: value iteration (\<^verbatim>\<open>value_iteration\<close>), iterative policy
  evaluation (\<^verbatim>\<open>dp_prediction\<close>, the notebook called policy iteration) and TD(0) prediction
  (\<^verbatim>\<open>td_prediction\<close>). Each defines its own copy of the 4 x 4 GridWorld.

  The notebooks hold their value tables in numpy arrays of float64. The tables are modelled
  as lists of rows of real numbers: arithmetic is exact, as in the specification's data
  model (a value table maps a state to a real number), and rounding is not modelled. On the
  configuration of value iteration every value is a small integer, so that the floating-point
  run computes the same numbers.

  The module-level constants \<^verbatim>\<open>GAMMA\<close>, \<^verbatim>\<open>THETA\<close>, \<^verbatim>\<open>ALPHA\<close> and \<^verbatim>\<open>EPISODES\<close> are
  passed to the solvers as arguments, so that properties can be stated for every
  configuration; the values the notebooks assign to them are the definitions \<open>GAMMA_VI\<close>,
  \<open>GAMMA_DP\<close>, \<open>GAMMA_TD\<close>, \<open>THETA\<close>, \<open>ALPHA\<close> and \<open>EPISODES\<close>.
\<close>

type_synonym state = "int \<times> int"
type_synonym grid = "real list list"

definition GRID_SIZE :: int where
  "GRID_SIZE = 4"

definition GAMMA_VI :: real where
  "GAMMA_VI = 1"

definition GAMMA_DP :: real where
  "GAMMA_DP = 9 / 10"

definition GAMMA_TD :: real where
  "GAMMA_TD = 9 / 10"

definition THETA :: real where
  "THETA = 1 / 10000"

definition ALPHA :: real where
  "ALPHA = 1 / 10"

definition EPISODES :: int where
  "EPISODES = 1000"

text \<open>\<^verbatim>\<open>actions = [(0, -1), (0, 1), (-1, 0), (1, 0)]  # LEFT, RIGHT, UP, DOWN\<close>; the
  policy-iteration notebook names the same list \<^verbatim>\<open>ACTIONS\<close>.\<close>

definition actions :: "(int \<times> int) list" where
  "actions = [(0, -1), (0, 1), (-1, 0), (1, 0)]"

definition ACTIONS :: "(int \<times> int) list" where
  "ACTIONS = [(0, -1), (0, 1), (-1, 0), (1, 0)]"

text \<open>\<^verbatim>\<open>range(n)\<close> for an integer \<open>n\<close>.\<close>

definition py_range :: "int \<Rightarrow> int list" where
  "py_range n = [0..n - 1]"

definition initialize_grid :: grid where
  "initialize_grid = replicate (nat GRID_SIZE) (replicate (nat GRID_SIZE) 0)"

definition is_terminal :: "state \<Rightarrow> bool" where
  "is_terminal state = (state = (0, 0))"

text \<open>Reading and writing \<^verbatim>\<open>V[i, j]\<close>. Every index the solvers use lies in
  \<open>[0, GRID_SIZE)\<close>: it comes from \<^verbatim>\<open>range(GRID_SIZE)\<close>, from a bounds check, or from
  a random draw below \<^verbatim>\<open>GRID_SIZE\<close>.\<close>

definition grid_get :: "grid \<Rightarrow> state \<Rightarrow> real" where
  "grid_get V s = V ! nat (fst s) ! nat (snd s)"

definition grid_set :: "grid \<Rightarrow> state \<Rightarrow> real \<Rightarrow> grid" where
  "grid_set V s v = V[nat (fst s) := (V ! nat (fst s))[nat (snd s) := v]]"

text \<open>
  \<^verbatim>\<open>
  def get_next_states(state):
      i, j = state
      transitions = []
      for action in actions:
          ni, nj = i + action[0], j + action[1]
          if 0 <= ni < GRID_SIZE and 0 <= nj < GRID_SIZE:
              transitions.append(((ni, nj), -1))  # Valid move with reward -1
          else:
              transitions.append((state, -1))  # Hitting wall, stays in place
      return transitions
  \<close>
  The same function in both Bellman notebooks.
\<close>

definition get_next_states :: "state \<Rightarrow> (state \<times> int) list" where
  "get_next_states state =
     (case state of (i, j) \<Rightarrow>
        map (\<lambda>action.
               let ni = i + fst action; nj = j + snd action in
               if 0 \<le> ni \<and> ni < GRID_SIZE \<and> 0 \<le> nj \<and> nj < GRID_SIZE
               then ((ni, nj), - 1)
               else (state, - 1))
            actions)"

section \<open>Value iteration\<close>

text \<open>Python's \<^verbatim>\<open>max\<close> of a list. On the empty list Python raises and the model
  is unspecified; \<^verbatim>\<open>value_iteration\<close> applies it to a list of four values.\<close>

fun py_max :: "real list \<Rightarrow> real" where
  "py_max (x # xs) = fold max xs x"

text \<open>
  \<^verbatim>\<open>
  def value_iteration(max_iters=1000):
      V = initialize_grid()
      iterations = 0
      while True:
          iterations += 1
          delta = 0
          new_V = np.copy(V)
          for i in range(GRID_SIZE):
              for j in range(GRID_SIZE):
                  if is_terminal((i, j)):
                      continue
                  action_values = []
                  for action in actions:
                      ni, nj = i + action[0], j + action[1]
                      if 0 <= ni < GRID_SIZE and 0 <= nj < GRID_SIZE:
                          reward = -1
                          action_values.append(reward + GAMMA * V[ni, nj])
                      else:
                          action_values.append(-1 + GAMMA * V[i, j])
                  new_V[i, j] = max(action_values)
                  delta = max(delta, abs(new_V[i, j] - V[i, j]))
          V = new_V
          if iterations % 10 == 0:
              print(f"Iteration {iterations}: Max Delta = {delta:.6f}")
          if delta < THETA or iterations >= max_iters:
              break
      print(f"Value Iteration completed in {iterations} iterations.")
      return V
  \<close>
  The function does not call \<^verbatim>\<open>get_next_states\<close>: it writes the transition out again.
  \<open>vi_action_value\<close> is one pass of the loop over \<^verbatim>\<open>actions\<close>.
\<close>

definition vi_action_value :: "real \<Rightarrow> grid \<Rightarrow> state \<Rightarrow> int \<times> int \<Rightarrow> real" where
  "vi_action_value \<gamma> V s action =
     (case s of (i, j) \<Rightarrow>
        let ni = i + fst action; nj = j + snd action in
        if 0 \<le> ni \<and> ni < GRID_SIZE \<and> 0 \<le> nj \<and> nj < GRID_SIZE
        then real_of_int (- 1) + \<gamma> * grid_get V (ni, nj)
        else - 1 + \<gamma> * grid_get V (i, j))"

text \<open>The body of the two nested \<^verbatim>\<open>for\<close> loops, on the pair \<open>(new_V, delta)\<close>.\<close>

definition vi_cell :: "real \<Rightarrow> grid \<Rightarrow> grid \<times> real \<Rightarrow> state \<Rightarrow> grid \<times> real" where
  "vi_cell \<gamma> V acc s =
     (case acc of (new_V, delta) \<Rightarrow>
        if is_terminal s then (new_V, delta)
        else
          let action_values = map (vi_action_value \<gamma> V s) actions;
              new_V' = grid_set new_V s (py_max action_values)
          in (new_V', max delta (\<bar>grid_get new_V' s - grid_get V s\<bar>)))"

definition cells :: "state list" where
  "cells = concat (map (\<lambda>i. map (\<lambda>j. (i, j)) (py_range GRID_SIZE)) (py_range GRID_SIZE))"

definition vi_sweep :: "real \<Rightarrow> grid \<Rightarrow> grid \<times> real" where
  "vi_sweep \<gamma> V = foldl (vi_cell \<gamma> V) (V, 0) cells"

text \<open>What the function prints: the progress line of every tenth iteration, with the
  iteration number and \<open>delta\<close>, and the final line, with the iteration number.\<close>

datatype printed = Progress int real | Completed int

text \<open>The \<^verbatim>\<open>while True\<close> loop, on the variables \<open>V\<close> and \<open>iterations\<close> and the output so
  far. It terminates: when the cap has not been reached, the distance to it shrinks.\<close>

function vi_loop ::
  "real \<Rightarrow> real \<Rightarrow> int \<Rightarrow> grid \<Rightarrow> int \<Rightarrow> printed list \<Rightarrow> grid \<times> int \<times> printed list" where
  "vi_loop \<gamma> \<theta> max_iters V iterations out =
     (case vi_sweep \<gamma> V of (new_V, delta) \<Rightarrow>
        let out' = (if (iterations + 1) mod 10 = 0
                    then out @ [Progress (iterations + 1) delta] else out)
        in if delta < \<theta> \<or> iterations + 1 \<ge> max_iters
           then (new_V, iterations + 1, out')
           else vi_loop \<gamma> \<theta> max_iters new_V (iterations + 1) out')"
  by pat_completeness auto
termination
  by (relation "measure (\<lambda>(\<gamma>, \<theta>, max_iters, V, iterations, out). nat (max_iters - iterations))")
     auto

declare vi_loop.simps [simp del]

text \<open>The run of \<^verbatim>\<open>value_iteration(max_iters)\<close>: what it prints and what it returns.\<close>

definition value_iteration_run :: "real \<Rightarrow> real \<Rightarrow> int \<Rightarrow> printed list \<times> grid" where
  "value_iteration_run \<gamma> \<theta> max_iters =
     (case vi_loop \<gamma> \<theta> max_iters initialize_grid 0 [] of
        (V, iterations, out) \<Rightarrow> (out @ [Completed iterations], V))"

definition value_iteration :: "real \<Rightarrow> real \<Rightarrow> int \<Rightarrow> grid" where
  "value_iteration \<gamma> \<theta> max_iters = snd (value_iteration_run \<gamma> \<theta> max_iters)"

section \<open>Iterative policy evaluation (the policy-iteration notebook)\<close>

text \<open>
  \<^verbatim>\<open>
  def dp_prediction():
      V = initialize_grid()
      while True:
          delta = 0
          new_V = np.copy(V)
          for i in range(GRID_SIZE):
              for j in range(GRID_SIZE):
                  if is_terminal((i, j)):
                      continue
                  value_sum = 0
                  for next_state, reward in get_next_states((i, j)):
                      value_sum += (1 / len(ACTIONS)) * (reward + GAMMA * V[next_state])
                  delta = max(delta, abs(value_sum - V[i, j]))
                  new_V[i, j] = value_sum
          V = new_V
          if delta < THETA:
              break
      return V
  \<close>
  \<open>dp_cell\<close> is the body of the two nested \<^verbatim>\<open>for\<close> loops, on the pair \<open>(new_V, delta)\<close>;
  \<open>dp_value_sum\<close> is \<open>value_sum\<close>, accumulated over \<^verbatim>\<open>get_next_states((i, j))\<close>.
\<close>

definition dp_value_sum :: "real \<Rightarrow> grid \<Rightarrow> state \<Rightarrow> real" where
  "dp_value_sum \<gamma> V s =
     foldl (\<lambda>value_sum (next_state, reward).
              value_sum + (1 / real (length ACTIONS)) * (real_of_int reward + \<gamma> * grid_get V next_state))
           0 (get_next_states s)"

definition dp_cell :: "real \<Rightarrow> grid \<Rightarrow> grid \<times> real \<Rightarrow> state \<Rightarrow> grid \<times> real" where
  "dp_cell \<gamma> V acc s =
     (case acc of (new_V, delta) \<Rightarrow>
        if is_terminal s then (new_V, delta)
        else (grid_set new_V s (dp_value_sum \<gamma> V s),
              max delta (\<bar>dp_value_sum \<gamma> V s - grid_get V s\<bar>)))"

definition dp_sweep :: "real \<Rightarrow> grid \<Rightarrow> grid \<times> real" where
  "dp_sweep \<gamma> V = foldl (dp_cell \<gamma> V) (V, 0) cells"

text \<open>The \<^verbatim>\<open>while True\<close> loop of \<^verbatim>\<open>dp_prediction\<close> has one exit, \<^verbatim>\<open>delta < THETA\<close>, and
  no iteration cap: a run that never takes the exit is the value \<open>None\<close>.\<close>

partial_function (option) dp_loop :: "real \<Rightarrow> real \<Rightarrow> grid \<Rightarrow> grid option" where
  "dp_loop \<gamma> \<theta> V =
     (case dp_sweep \<gamma> V of (new_V, delta) \<Rightarrow>
        if delta < \<theta> then Some new_V else dp_loop \<gamma> \<theta> new_V)"

definition dp_prediction :: "real \<Rightarrow> real \<Rightarrow> grid option" where
  "dp_prediction \<gamma> \<theta> = dp_loop \<gamma> \<theta> initialize_grid"

section \<open>TD(0) prediction\<close>

text \<open>
  \<^verbatim>\<open>
  def get_next_state(state, action):
      i, j = state
      if action == 0 and i > 0:  # UP
          i -= 1
      elif action == 1 and i < GRID_SIZE - 1:  # DOWN
          i += 1
      elif action == 2 and j > 0:  # LEFT
          j -= 1
      elif action == 3 and j < GRID_SIZE - 1:  # RIGHT
          j += 1
      return (i, j)

  def td_prediction():
      V = initialize_grid()
      for episode in range(1, EPISODES + 1):
          state = (np.random.randint(0, GRID_SIZE), np.random.randint(0, GRID_SIZE))  # Start at random state
          while state != (0, 0):  # Terminal state
              action = np.random.choice(4)  # Random action (UP, DOWN, LEFT, RIGHT)
              next_state = get_next_state(state, action)
              reward = -1  # Each step has -1 reward
              V[state] += ALPHA * (reward + GAMMA * V[next_state] - V[state])
              state = next_state  # Move to next state
      return V
  \<close>
  Actions are the integers drawn by \<^verbatim>\<open>np.random.choice(4)\<close>: 0 is UP, 1 is DOWN, 2 is
  LEFT, 3 is RIGHT.
\<close>

definition get_next_state :: "state \<Rightarrow> int \<Rightarrow> state" where
  "get_next_state state action =
     (case state of (i, j) \<Rightarrow>
        if action = 0 \<and> i > 0 then (i - 1, j)
        else if action = 1 \<and> i < GRID_SIZE - 1 then (i + 1, j)
        else if action = 2 \<and> j > 0 then (i, j - 1)
        else if action = 3 \<and> j < GRID_SIZE - 1 then (i, j + 1)
        else (i, j))"

text \<open>The body of the \<^verbatim>\<open>while\<close> loop, for the action drawn: the table after the TD(0)
  update and the next state.\<close>

definition td_update :: "real \<Rightarrow> real \<Rightarrow> grid \<Rightarrow> state \<Rightarrow> int \<Rightarrow> grid \<times> state" where
  "td_update \<alpha> \<gamma> V state action =
     (let next_state = get_next_state state action;
          reward = - 1
      in (grid_set V state
            (grid_get V state
               + \<alpha> * (real_of_int reward + \<gamma> * grid_get V next_state - grid_get V state)),
          next_state))"

text \<open>The random generator is modelled by the list of the numbers it returns, in the order
  of the calls: each of \<^verbatim>\<open>np.random.randint(0, GRID_SIZE)\<close> and \<^verbatim>\<open>np.random.choice(4)\<close>
  takes the head of the list. The loop of an episode has no step cap; a run that is still
  inside an episode when the list is used up is the value \<open>None\<close>.\<close>

fun td_episode :: "real \<Rightarrow> real \<Rightarrow> grid \<Rightarrow> state \<Rightarrow> int list \<Rightarrow> (grid \<times> int list) option" where
  "td_episode \<alpha> \<gamma> V state rnd =
     (if state \<noteq> (0, 0)
      then (case rnd of
              [] \<Rightarrow> None
            | action # rnd' \<Rightarrow>
                (case td_update \<alpha> \<gamma> V state action of
                   (V', next_state) \<Rightarrow> td_episode \<alpha> \<gamma> V' next_state rnd'))
      else Some (V, rnd))"

declare td_episode.simps [simp del]

text \<open>\<^verbatim>\<open>state = (np.random.randint(0, GRID_SIZE), np.random.randint(0, GRID_SIZE))\<close>: the start
  state of an episode, from two draws.\<close>

fun td_start_state :: "int list \<Rightarrow> (state \<times> int list) option" where
  "td_start_state (i # j # rnd) = Some ((i, j), rnd)"
| "td_start_state rnd = None"

text \<open>\<^verbatim>\<open>for episode in range(1, EPISODES + 1)\<close>, over the list of episode numbers.\<close>

fun td_episodes ::
  "real \<Rightarrow> real \<Rightarrow> int list \<Rightarrow> grid \<Rightarrow> int list \<Rightarrow> (grid \<times> int list) option" where
  "td_episodes \<alpha> \<gamma> [] V rnd = Some (V, rnd)"
| "td_episodes \<alpha> \<gamma> (episode # rest) V rnd =
     (case td_start_state rnd of
        None \<Rightarrow> None
      | Some (state, rnd') \<Rightarrow>
          (case td_episode \<alpha> \<gamma> V state rnd' of
             None \<Rightarrow> None
           | Some (V', rnd'') \<Rightarrow> td_episodes \<alpha> \<gamma> rest V' rnd''))"

definition td_prediction :: "real \<Rightarrow> real \<Rightarrow> int \<Rightarrow> int list \<Rightarrow> grid option" where
  "td_prediction \<alpha> \<gamma> episodes rnd =
     map_option fst (td_episodes \<alpha> \<gamma> [1..episodes] initialize_grid rnd)"

section \<open>Notions used to state the properties\<close>

definition in_grid :: "state \<Rightarrow> bool" where
  "in_grid s = (0 \<le> fst s \<and> fst s < GRID_SIZE \<and> 0 \<le> snd s \<and> snd s < GRID_SIZE)"

definition displaced :: "state \<Rightarrow> int \<times> int \<Rightarrow> state" where
  "displaced s a = (fst s + fst a, snd s + snd a)"

text \<open>The displacement of each integer action of the TD notebook, as its comments name them.\<close>

definition action_offset :: "int \<Rightarrow> int \<times> int" where
  "action_offset a =
     (if a = 0 then (- 1, 0) else if a = 1 then (1, 0) else if a = 2 then (0, - 1) else (0, 1))"

text \<open>The transition of the specification: the displaced coordinate when it is on the grid,
  the state itself otherwise, and the reward \<open>-1\<close>.\<close>

definition env_step :: "state \<Rightarrow> int \<times> int \<Rightarrow> state \<times> int" where
  "env_step s a = (if in_grid (displaced s a) then displaced s a else s, - 1)"

definition grid_shape :: "grid \<Rightarrow> bool" where
  "grid_shape V = (length V = nat GRID_SIZE \<and> list_all (\<lambda>row. length row = nat GRID_SIZE) V)"

definition all_nonpos :: "grid \<Rightarrow> bool" where
  "all_nonpos V = list_all (list_all (\<lambda>v. v \<le> 0)) V"

text \<open>The Manhattan distance of a state to the terminal state \<open>(0, 0)\<close>.\<close>

definition manhattan :: "state \<Rightarrow> int" where
  "manhattan s = \<bar>fst s - 0\<bar> + \<bar>snd s - 0\<bar>"

text \<open>The table after \<open>n\<close> sweeps from the zero table.\<close>

definition vi_tables :: "real \<Rightarrow> nat \<Rightarrow> grid" where
  "vi_tables \<gamma> n = ((\<lambda>V. fst (vi_sweep \<gamma> V)) ^^ n) initialize_grid"

definition dp_tables :: "real \<Rightarrow> nat \<Rightarrow> grid" where
  "dp_tables \<gamma> n = ((\<lambda>V. fst (dp_sweep \<gamma> V)) ^^ n) initialize_grid"

definition manhattan_grid :: grid where
  "manhattan_grid = [[0, - 1, - 2, - 3], [- 1, - 2, - 3, - 4], [- 2, - 3, - 4, - 5], [- 3, - 4, - 5, - 6]]"

text \<open>Every number the random generator returns is one of 0, 1, 2, 3: both
  \<^verbatim>\<open>np.random.randint(0, GRID_SIZE)\<close> and \<^verbatim>\<open>np.random.choice(4)\<close> draw from that range.\<close>

definition draws_ok :: "int list \<Rightarrow> bool" where
  "draws_ok rnd = list_all (\<lambda>d. 0 \<le> d \<and> d < 4) rnd"

section \<open>Policy evaluation on integers\<close>

text \<open>With \<open>\<gamma> = 9/10\<close> the table after \<open>k\<close> sweeps holds multiples of \<open>1 / 40 ^ k\<close>. The
  sweep is repeated here on the integer numerators, over the common denominator \<open>Q\<close>. It is
  shown further down to compute what \<open>dp_sweep\<close> computes, and it serves to evaluate
  \<open>dp_prediction\<close> on the configuration of the notebook.\<close>

definition to_grid :: "int \<Rightarrow> int list list \<Rightarrow> grid" where
  "to_grid Q N = map (map (\<lambda>n. real_of_int n / real_of_int Q)) N"

definition int_get :: "int list list \<Rightarrow> state \<Rightarrow> int" where
  "int_get N s = N ! nat (fst s) ! nat (snd s)"

definition int_set :: "int list list \<Rightarrow> state \<Rightarrow> int \<Rightarrow> int list list" where
  "int_set N s v = N[nat (fst s) := (N ! nat (fst s))[nat (snd s) := v]]"

definition int_shape :: "int list list \<Rightarrow> bool" where
  "int_shape N = (length N = nat GRID_SIZE \<and> list_all (\<lambda>row. length row = nat GRID_SIZE) N)"

definition dp_int_value_sum :: "int \<Rightarrow> int list list \<Rightarrow> state \<Rightarrow> int" where
  "dp_int_value_sum Q N s =
     9 * foldl (\<lambda>acc (next_state, reward). acc + int_get N next_state) 0 (get_next_states s)
     - 40 * Q"

definition dp_int_cell ::
  "int \<Rightarrow> int list list \<Rightarrow> int list list \<times> int \<Rightarrow> state \<Rightarrow> int list list \<times> int" where
  "dp_int_cell Q N acc s =
     (case acc of (new_N, delta) \<Rightarrow>
        if is_terminal s then (new_N, delta)
        else (int_set new_N s (dp_int_value_sum Q N s),
              max delta (\<bar>dp_int_value_sum Q N s - 40 * int_get N s\<bar>)))"

definition dp_int_sweep :: "int \<Rightarrow> int list list \<Rightarrow> int list list \<times> int" where
  "dp_int_sweep Q N = foldl (dp_int_cell Q N) (map (map (\<lambda>n. 40 * n)) N, 0) cells"

text \<open>The loop of \<^verbatim>\<open>dp_prediction\<close> for \<open>\<theta> = 1/10000\<close>, on the numerators: the new
  denominator is \<open>40 * Q\<close>, so the exit test \<open>delta / (40 * Q) < 1 / 10000\<close> is
  \<open>10000 * delta < 40 * Q\<close>. The first argument bounds the number of sweeps.\<close>

fun dp_int_loop :: "nat \<Rightarrow> int \<Rightarrow> int list list \<Rightarrow> (int \<times> int list list) option" where
  "dp_int_loop 0 Q N = None"
| "dp_int_loop (Suc fuel) Q N =
     (case dp_int_sweep Q N of (new_N, delta) \<Rightarrow>
        if 10000 * delta < 40 * Q then Some (40 * Q, new_N)
        else dp_int_loop fuel (40 * Q) new_N)"

definition dp_int_prediction :: "nat \<Rightarrow> (int \<times> int list list) option" where
  "dp_int_prediction fuel = dp_int_loop fuel 1 (replicate (nat GRID_SIZE) (replicate (nat GRID_SIZE) 0))"

text \<open>Values fall strictly as the Manhattan distance to the terminal state grows, on the
  integer numerators.\<close>

definition int_monotone :: "int list list \<Rightarrow> bool" where
  "int_monotone N =
     list_all (\<lambda>s1. list_all (\<lambda>s2. manhattan s1 < manhattan s2 \<longrightarrow> int_get N s2 < int_get N s1) cells)
       cells"

section \<open>The TD(0) estimator as the specification words it\<close>

text \<open>The tables a run of \<^verbatim>\<open>td_prediction\<close> can hold: the zero table, and the table after
  one more TD(0) update at a non-terminal state of the grid.\<close>

inductive td_reachable :: "real \<Rightarrow> real \<Rightarrow> grid \<Rightarrow> bool" for \<alpha> \<gamma> where
  start: "td_reachable \<alpha> \<gamma> initialize_grid"
| update: "td_reachable \<alpha> \<gamma> V \<Longrightarrow> in_grid s \<Longrightarrow> s \<noteq> (0, 0)
     \<Longrightarrow> td_reachable \<alpha> \<gamma> (fst (td_update \<alpha> \<gamma> V s a))"

text \<open>One step of an episode in the words of the specification: observe
  \<open>(next_state, reward)\<close> from the environment's step function and apply
  \<open>V(s) += \<alpha> (R + \<gamma> V(s') - V(s))\<close>.\<close>

definition spec_td_step :: "real \<Rightarrow> real \<Rightarrow> grid \<Rightarrow> state \<Rightarrow> int \<Rightarrow> grid \<times> state" where
  "spec_td_step \<alpha> \<gamma> V s a =
     (case env_step s (action_offset a) of
        (s', R) \<Rightarrow>
          (grid_set V s (grid_get V s + \<alpha> * (real_of_int R + \<gamma> * grid_get V s' - grid_get V s)),
           s'))"

text \<open>An episode in the words of the specification: steps are taken until the terminal
  state is reached. As in \<open>td_episode\<close>, the draws are a list, and an episode that uses them
  up before it ends is \<open>None\<close>.\<close>

fun spec_td_episode ::
  "real \<Rightarrow> real \<Rightarrow> grid \<Rightarrow> state \<Rightarrow> int list \<Rightarrow> (grid \<times> int list) option" where
  "spec_td_episode \<alpha> \<gamma> V s [] = (if is_terminal s then Some (V, []) else None)"
| "spec_td_episode \<alpha> \<gamma> V s (a # rnd) =
     (if is_terminal s then Some (V, a # rnd)
      else (case spec_td_step \<alpha> \<gamma> V s a of (V', s') \<Rightarrow> spec_td_episode \<alpha> \<gamma> V' s' rnd))"

text \<open>The configured number of episodes, each from the state made of two draws.\<close>

fun spec_td_run ::
  "real \<Rightarrow> real \<Rightarrow> nat \<Rightarrow> grid \<Rightarrow> int list \<Rightarrow> (grid \<times> int list) option" where
  "spec_td_run \<alpha> \<gamma> 0 V rnd = Some (V, rnd)"
| "spec_td_run \<alpha> \<gamma> (Suc n) V [] = None"
| "spec_td_run \<alpha> \<gamma> (Suc n) V [i] = None"
| "spec_td_run \<alpha> \<gamma> (Suc n) V (i # j # rnd) =
     (case spec_td_episode \<alpha> \<gamma> V (i, j) rnd of
        None \<Rightarrow> None
      | Some (V', rnd') \<Rightarrow> spec_td_run \<alpha> \<gamma> n V' rnd')"

section \<open>Monte Carlo prediction\<close>

text \<open>Modelled from the spec: the Monte Carlo notebook (\<^verbatim>\<open>MC_Prediction_Algorithm.ipynb\<close>)
  is named by the README but is not among the sources. The definitions below follow the
  specification of the Monte Carlo mode: a full trajectory from a random start to termination,
  recording visited states and rewards; the return \<open>G_t\<close> of each visited state, computed
  backward from the end of the episode; and an update of each visited state's value toward the
  observed return by first-visit or every-visit averaging, as the caller selects.\<close>

datatype mc_mode = FirstVisit | EveryVisit

text \<open>Modelled from the spec: the trajectory of one episode, as the list of visited states
  with the reward received on leaving each.\<close>

fun mc_trajectory :: "state \<Rightarrow> int list \<Rightarrow> ((state \<times> int) list \<times> int list) option" where
  "mc_trajectory s [] = (if is_terminal s then Some ([], []) else None)"
| "mc_trajectory s (a # rnd) =
     (if is_terminal s then Some ([], a # rnd)
      else (case env_step s (action_offset a) of
              (s', R) \<Rightarrow>
                (case mc_trajectory s' rnd of
                   None \<Rightarrow> None
                 | Some (tr, rnd') \<Rightarrow> Some ((s, R) # tr, rnd'))))"

text \<open>Modelled from the spec: the returns of an episode, computed backward from its end,
  \<open>G_t = R_t + \<gamma> G_{t+1}\<close> with nothing after the last reward.\<close>

fun mc_returns :: "real \<Rightarrow> int list \<Rightarrow> real list" where
  "mc_returns \<gamma> [] = []"
| "mc_returns \<gamma> (R # rs) =
     (real_of_int R + \<gamma> * (case mc_returns \<gamma> rs of [] \<Rightarrow> 0 | G # _ \<Rightarrow> G)) # mc_returns \<gamma> rs"

text \<open>Modelled from the spec: averaging. A table of visit counts is kept beside the values;
  an update at \<open>s\<close> with return \<open>G\<close> counts the visit and moves \<open>V(s)\<close> to the mean of the
  returns seen at \<open>s\<close>.\<close>

definition mc_update :: "grid \<times> int list list \<Rightarrow> state \<Rightarrow> real \<Rightarrow> grid \<times> int list list" where
  "mc_update VN s G =
     (case VN of (V, N) \<Rightarrow>
        (grid_set V s (grid_get V s + (G - grid_get V s) / real_of_int (int_get N s + 1)),
         int_set N s (int_get N s + 1)))"

text \<open>Modelled from the spec: the updates of one episode, in time order. In first-visit mode
  only the first occurrence of a state in the episode updates it; in every-visit mode every
  occurrence does.\<close>

fun mc_process ::
  "mc_mode \<Rightarrow> state list \<Rightarrow> (state \<times> real) list \<Rightarrow> grid \<times> int list list \<Rightarrow> grid \<times> int list list" where
  "mc_process mode seen [] VN = VN"
| "mc_process mode seen ((s, G) # rest) VN =
     mc_process mode (s # seen) rest
       (if mode = FirstVisit \<and> s \<in> set seen then VN else mc_update VN s G)"

text \<open>Modelled from the spec: the configured number of episodes, each from a start state
  made of two draws, as in the TD(0) notebook.\<close>

fun mc_episodes ::
  "mc_mode \<Rightarrow> real \<Rightarrow> nat \<Rightarrow> grid \<times> int list list \<Rightarrow> int list
     \<Rightarrow> ((grid \<times> int list list) \<times> int list) option" where
  "mc_episodes mode \<gamma> 0 VN rnd = Some (VN, rnd)"
| "mc_episodes mode \<gamma> (Suc n) VN [] = None"
| "mc_episodes mode \<gamma> (Suc n) VN [i] = None"
| "mc_episodes mode \<gamma> (Suc n) VN (i # j # rnd) =
     (case mc_trajectory (i, j) rnd of
        None \<Rightarrow> None
      | Some (tr, rnd') \<Rightarrow>
          mc_episodes mode \<gamma> n
            (mc_process mode [] (zip (map fst tr) (mc_returns \<gamma> (map snd tr))) VN) rnd')"

text \<open>Modelled from the spec: the estimator, from the zero table and zero visit counts; it
  returns the value table.\<close>

definition mc_prediction :: "mc_mode \<Rightarrow> real \<Rightarrow> nat \<Rightarrow> int list \<Rightarrow> grid option" where
  "mc_prediction mode \<gamma> episodes rnd =
     map_option (\<lambda>r. fst (fst r))
       (mc_episodes mode \<gamma> episodes
          (initialize_grid, replicate (nat GRID_SIZE) (replicate (nat GRID_SIZE) 0)) rnd)"

text \<open>Notions used to state what the Monte Carlo mode computes. \<open>mc_walk\<close> is the state
  reached from a start state by a list of actions; \<open>mc_visits\<close> pairs the states of a
  trajectory with their returns; \<open>mc_updates\<close> is the list of the returns that update the
  value of \<open>s\<close> in one episode: the returns at all occurrences of \<open>s\<close> in every-visit mode, the
  return at its first occurrence in first-visit mode.\<close>

definition mc_walk :: "state \<Rightarrow> int list \<Rightarrow> state" where
  "mc_walk s as = foldl (\<lambda>s a. fst (env_step s (action_offset a))) s as"

definition mc_visits :: "real \<Rightarrow> (state \<times> int) list \<Rightarrow> (state \<times> real) list" where
  "mc_visits \<gamma> tr = zip (map fst tr) (mc_returns \<gamma> (map snd tr))"

definition mc_updates :: "mc_mode \<Rightarrow> state \<Rightarrow> (state \<times> real) list \<Rightarrow> real list" where
  "mc_updates mode s visits =
     (case mode of
        FirstVisit \<Rightarrow> take 1 (map snd (filter (\<lambda>x. fst x = s) visits))
      | EveryVisit \<Rightarrow> map snd (filter (\<lambda>x. fst x = s) visits))"

text \<open>The trajectories of the first \<open>n\<close> episodes that the draws determine, each from the start
  state made of two draws, and the draws left over.\<close>

fun mc_trajectories :: "nat \<Rightarrow> int list \<Rightarrow> ((state \<times> int) list list \<times> int list) option" where
  "mc_trajectories 0 rnd = Some ([], rnd)"
| "mc_trajectories (Suc n) [] = None"
| "mc_trajectories (Suc n) [i] = None"
| "mc_trajectories (Suc n) (i # j # rnd) =
     (case mc_trajectory (i, j) rnd of
        None \<Rightarrow> None
      | Some (tr, rnd') \<Rightarrow>
          (case mc_trajectories n rnd' of
             None \<Rightarrow> None
           | Some (trs, rnd'') \<Rightarrow> Some (tr # trs, rnd'')))"

text \<open>All the returns that update the value of \<open>s\<close> over a list of episodes, in order.\<close>

definition mc_observed :: "mc_mode \<Rightarrow> real \<Rightarrow> state \<Rightarrow> (state \<times> int) list list \<Rightarrow> real list" where
  "mc_observed mode \<gamma> s trs = concat (map (\<lambda>tr. mc_updates mode s (mc_visits \<gamma> tr)) trs)"

text \<open>The state of the estimator is the value table with the table of visit counts. It is
  well formed when both tables are 4 x 4 and no count of a state of the grid is negative.
  \<open>mc_accounts VN VN' s U\<close> says that, from \<open>VN\<close> to \<open>VN'\<close>, the state \<open>s\<close> has been updated
  with exactly the returns \<open>U\<close>: its count has grown by their number, its count times its value
  by their sum, and its value is unchanged when there are none.\<close>

definition mc_wf :: "grid \<times> int list list \<Rightarrow> bool" where
  "mc_wf VN = (grid_shape (fst VN) \<and> int_shape (snd VN)
               \<and> (\<forall>t. in_grid t \<longrightarrow> 0 \<le> int_get (snd VN) t))"

definition mc_accounts ::
  "grid \<times> int list list \<Rightarrow> grid \<times> int list list \<Rightarrow> state \<Rightarrow> real list \<Rightarrow> bool" where
  "mc_accounts VN VN' s U =
     (int_get (snd VN') s = int_get (snd VN) s + int (length U)
      \<and> real_of_int (int_get (snd VN') s) * grid_get (fst VN') s
          = real_of_int (int_get (snd VN) s) * grid_get (fst VN) s + sum_list U
      \<and> (U = [] \<longrightarrow> grid_get (fst VN') s = grid_get (fst VN) s))"

section \<open>The solvers with the grid size as an argument\<close>

text \<open>
  \<^verbatim>\<open>GRID_SIZE\<close> is a module-level constant like \<^verbatim>\<open>GAMMA\<close>. To state what the solvers do for a
  grid size other than 4, their definitions are repeated here with the grid size \<open>N\<close> as an
  argument, and with the exceptions that numpy raises as values. Nothing else differs from
  the definitions above; for \<open>N = GRID_SIZE\<close> they are shown further down to be the same
  functions.

  Two library calls of the notebooks can raise, as numpy documents them:
  \<^verbatim>\<open>np.zeros((n, n))\<close> raises \<^verbatim>\<open>ValueError\<close> (negative dimensions are not allowed) when \<open>n\<close> is
  negative, and \<^verbatim>\<open>np.random.randint(0, n)\<close> raises \<^verbatim>\<open>ValueError\<close> (low >= high) when \<open>n\<close> is
  not positive. The notebooks themselves contain no \<^verbatim>\<open>raise\<close> and no \<^verbatim>\<open>assert\<close>.
\<close>

datatype py_error = ValueError

definition np_zeros :: "int \<Rightarrow> py_error + grid" where
  "np_zeros n = (if n < 0 then Inl ValueError else Inr (replicate (nat n) (replicate (nat n) 0)))"

text \<open>\<^verbatim>\<open>def initialize_grid(): return np.zeros((GRID_SIZE, GRID_SIZE))\<close>\<close>

definition initialize_grid_n :: "int \<Rightarrow> py_error + grid" where
  "initialize_grid_n N = np_zeros N"

definition cells_n :: "int \<Rightarrow> state list" where
  "cells_n N = concat (map (\<lambda>i. map (\<lambda>j. (i, j)) (py_range N)) (py_range N))"

definition get_next_states_n :: "int \<Rightarrow> state \<Rightarrow> (state \<times> int) list" where
  "get_next_states_n N state =
     (case state of (i, j) \<Rightarrow>
        map (\<lambda>action.
               let ni = i + fst action; nj = j + snd action in
               if 0 \<le> ni \<and> ni < N \<and> 0 \<le> nj \<and> nj < N
               then ((ni, nj), - 1)
               else (state, - 1))
            actions)"

definition vi_action_value_n :: "int \<Rightarrow> real \<Rightarrow> grid \<Rightarrow> state \<Rightarrow> int \<times> int \<Rightarrow> real" where
  "vi_action_value_n N \<gamma> V s action =
     (case s of (i, j) \<Rightarrow>
        let ni = i + fst action; nj = j + snd action in
        if 0 \<le> ni \<and> ni < N \<and> 0 \<le> nj \<and> nj < N
        then real_of_int (- 1) + \<gamma> * grid_get V (ni, nj)
        else - 1 + \<gamma> * grid_get V (i, j))"

definition vi_cell_n :: "int \<Rightarrow> real \<Rightarrow> grid \<Rightarrow> grid \<times> real \<Rightarrow> state \<Rightarrow> grid \<times> real" where
  "vi_cell_n N \<gamma> V acc s =
     (case acc of (new_V, delta) \<Rightarrow>
        if is_terminal s then (new_V, delta)
        else
          let action_values = map (vi_action_value_n N \<gamma> V s) actions;
              new_V' = grid_set new_V s (py_max action_values)
          in (new_V', max delta (\<bar>grid_get new_V' s - grid_get V s\<bar>)))"

definition vi_sweep_n :: "int \<Rightarrow> real \<Rightarrow> grid \<Rightarrow> grid \<times> real" where
  "vi_sweep_n N \<gamma> V = foldl (vi_cell_n N \<gamma> V) (V, 0) (cells_n N)"

function vi_loop_n ::
  "int \<Rightarrow> real \<Rightarrow> real \<Rightarrow> int \<Rightarrow> grid \<Rightarrow> int \<Rightarrow> printed list \<Rightarrow> grid \<times> int \<times> printed list" where
  "vi_loop_n N \<gamma> \<theta> max_iters V iterations out =
     (case vi_sweep_n N \<gamma> V of (new_V, delta) \<Rightarrow>
        let out' = (if (iterations + 1) mod 10 = 0
                    then out @ [Progress (iterations + 1) delta] else out)
        in if delta < \<theta> \<or> iterations + 1 \<ge> max_iters
           then (new_V, iterations + 1, out')
           else vi_loop_n N \<gamma> \<theta> max_iters new_V (iterations + 1) out')"
  by pat_completeness auto
termination
  by (relation "measure (\<lambda>(N, \<gamma>, \<theta>, max_iters, V, iterations, out). nat (max_iters - iterations))")
     auto

declare vi_loop_n.simps [simp del]

text \<open>\<^verbatim>\<open>value_iteration\<close>: the first statement is \<^verbatim>\<open>V = initialize_grid()\<close>; an exception raised
  there ends the call.\<close>

definition value_iteration_n :: "int \<Rightarrow> real \<Rightarrow> real \<Rightarrow> int \<Rightarrow> py_error + grid" where
  "value_iteration_n N \<gamma> \<theta> max_iters =
     (case initialize_grid_n N of
        Inl e \<Rightarrow> Inl e
      | Inr V \<Rightarrow> Inr (fst (vi_loop_n N \<gamma> \<theta> max_iters V 0 [])))"

definition dp_value_sum_n :: "int \<Rightarrow> real \<Rightarrow> grid \<Rightarrow> state \<Rightarrow> real" where
  "dp_value_sum_n N \<gamma> V s =
     foldl (\<lambda>value_sum (next_state, reward).
              value_sum + (1 / real (length ACTIONS)) * (real_of_int reward + \<gamma> * grid_get V next_state))
           0 (get_next_states_n N s)"

definition dp_cell_n :: "int \<Rightarrow> real \<Rightarrow> grid \<Rightarrow> grid \<times> real \<Rightarrow> state \<Rightarrow> grid \<times> real" where
  "dp_cell_n N \<gamma> V acc s =
     (case acc of (new_V, delta) \<Rightarrow>
        if is_terminal s then (new_V, delta)
        else (grid_set new_V s (dp_value_sum_n N \<gamma> V s),
              max delta (\<bar>dp_value_sum_n N \<gamma> V s - grid_get V s\<bar>)))"

definition dp_sweep_n :: "int \<Rightarrow> real \<Rightarrow> grid \<Rightarrow> grid \<times> real" where
  "dp_sweep_n N \<gamma> V = foldl (dp_cell_n N \<gamma> V) (V, 0) (cells_n N)"

partial_function (option) dp_loop_n :: "int \<Rightarrow> real \<Rightarrow> real \<Rightarrow> grid \<Rightarrow> grid option" where
  "dp_loop_n N \<gamma> \<theta> V =
     (case dp_sweep_n N \<gamma> V of (new_V, delta) \<Rightarrow>
        if delta < \<theta> then Some new_V else dp_loop_n N \<gamma> \<theta> new_V)"

text \<open>\<^verbatim>\<open>dp_prediction\<close>: \<open>None\<close> is a call that never returns, \<open>Some (Inl e)\<close> a call ended by the
  exception \<open>e\<close>, \<open>Some (Inr V)\<close> a call that returns \<open>V\<close>.\<close>

definition dp_prediction_n :: "int \<Rightarrow> real \<Rightarrow> real \<Rightarrow> (py_error + grid) option" where
  "dp_prediction_n N \<gamma> \<theta> =
     (case initialize_grid_n N of
        Inl e \<Rightarrow> Some (Inl e)
      | Inr V \<Rightarrow> map_option Inr (dp_loop_n N \<gamma> \<theta> V))"

definition get_next_state_n :: "int \<Rightarrow> state \<Rightarrow> int \<Rightarrow> state" where
  "get_next_state_n N state action =
     (case state of (i, j) \<Rightarrow>
        if action = 0 \<and> i > 0 then (i - 1, j)
        else if action = 1 \<and> i < N - 1 then (i + 1, j)
        else if action = 2 \<and> j > 0 then (i, j - 1)
        else if action = 3 \<and> j < N - 1 then (i, j + 1)
        else (i, j))"

definition td_update_n :: "int \<Rightarrow> real \<Rightarrow> real \<Rightarrow> grid \<Rightarrow> state \<Rightarrow> int \<Rightarrow> grid \<times> state" where
  "td_update_n N \<alpha> \<gamma> V state action =
     (let next_state = get_next_state_n N state action;
          reward = - 1
      in (grid_set V state
            (grid_get V state
               + \<alpha> * (real_of_int reward + \<gamma> * grid_get V next_state - grid_get V state)),
          next_state))"

fun td_episode_n ::
  "int \<Rightarrow> real \<Rightarrow> real \<Rightarrow> grid \<Rightarrow> state \<Rightarrow> int list \<Rightarrow> (grid \<times> int list) option" where
  "td_episode_n N \<alpha> \<gamma> V state rnd =
     (if state \<noteq> (0, 0)
      then (case rnd of
              [] \<Rightarrow> None
            | action # rnd' \<Rightarrow>
                (case td_update_n N \<alpha> \<gamma> V state action of
                   (V', next_state) \<Rightarrow> td_episode_n N \<alpha> \<gamma> V' next_state rnd'))
      else Some (V, rnd))"

declare td_episode_n.simps [simp del]

text \<open>The start state of an episode: the first call \<^verbatim>\<open>np.random.randint(0, GRID_SIZE)\<close> raises
  when the grid size is not positive; otherwise two draws are taken.\<close>

definition td_start_state_n :: "int \<Rightarrow> int list \<Rightarrow> (py_error + state \<times> int list) option" where
  "td_start_state_n N rnd =
     (if N \<le> 0 then Some (Inl ValueError) else map_option Inr (td_start_state rnd))"

fun td_episodes_n ::
  "int \<Rightarrow> real \<Rightarrow> real \<Rightarrow> int list \<Rightarrow> grid \<Rightarrow> int list \<Rightarrow> (py_error + grid \<times> int list) option" where
  "td_episodes_n N \<alpha> \<gamma> [] V rnd = Some (Inr (V, rnd))"
| "td_episodes_n N \<alpha> \<gamma> (episode # rest) V rnd =
     (case td_start_state_n N rnd of
        None \<Rightarrow> None
      | Some (Inl e) \<Rightarrow> Some (Inl e)
      | Some (Inr (state, rnd')) \<Rightarrow>
          (case td_episode_n N \<alpha> \<gamma> V state rnd' of
             None \<Rightarrow> None
           | Some (V', rnd'') \<Rightarrow> td_episodes_n N \<alpha> \<gamma> rest V' rnd''))"

text \<open>\<^verbatim>\<open>td_prediction\<close>: \<open>None\<close> is a run that uses up the given draws inside an episode,
  \<open>Some (Inl e)\<close> a call ended by the exception \<open>e\<close>, \<open>Some (Inr V)\<close> a call that returns \<open>V\<close>.\<close>

definition td_prediction_n :: "int \<Rightarrow> real \<Rightarrow> real \<Rightarrow> int \<Rightarrow> int list \<Rightarrow> (py_error + grid) option" where
  "td_prediction_n N \<alpha> \<gamma> episodes rnd =
     (case initialize_grid_n N of
        Inl e \<Rightarrow> Some (Inl e)
      | Inr V \<Rightarrow>
          (case td_episodes_n N \<alpha> \<gamma> [1..episodes] V rnd of
             None \<Rightarrow> None
           | Some (Inl e) \<Rightarrow> Some (Inl e)
           | Some (Inr (V', rnd')) \<Rightarrow> Some (Inr V')))"

text \<open>The zero table of size \<open>N\<close>, and the table after \<open>k\<close> sweeps from it.\<close>

definition zero_grid :: "int \<Rightarrow> grid" where
  "zero_grid N = replicate (nat N) (replicate (nat N) 0)"

definition vi_tables_n :: "int \<Rightarrow> real \<Rightarrow> nat \<Rightarrow> grid" where
  "vi_tables_n N \<gamma> k = ((\<lambda>V. fst (vi_sweep_n N \<gamma> V)) ^^ k) (zero_grid N)"

definition dp_tables_n :: "int \<Rightarrow> real \<Rightarrow> nat \<Rightarrow> grid" where
  "dp_tables_n N \<gamma> k = ((\<lambda>V. fst (dp_sweep_n N \<gamma> V)) ^^ k) (zero_grid N)"

section \<open>Grids\<close>

lemma cells_eval: "cells = [(0,0),(0,1),(0,2),(0,3),(1,0),(1,1),(1,2),(1,3),(2,0),(2,1),(2,2),(2,3),(3,0),(3,1),(3,2),(3,3)]"
  by (simp add: cells_def py_range_def GRID_SIZE_def upto_rec1)

lemma initialize_grid_eval: "initialize_grid = [[0,0,0,0],[0,0,0,0],[0,0,0,0],[0,0,0,0]]"
  by (simp add: initialize_grid_def GRID_SIZE_def eval_nat_numeral)

lemma in_grid_cells: "s \<in> set cells \<Longrightarrow> in_grid s"
  by (auto simp: cells_eval in_grid_def GRID_SIZE_def)

lemma grid_shape_init: "grid_shape initialize_grid"
  by (simp add: grid_shape_def initialize_grid_def list_all_iff)

lemma all_nonpos_init: "all_nonpos initialize_grid"
  by (simp add: all_nonpos_def initialize_grid_def list_all_iff)

lemma terminal_init: "grid_get initialize_grid (0, 0) = 0"
  by (simp add: initialize_grid_eval grid_get_def)

lemma nth_update_if: "n < length xs \<Longrightarrow> xs[i := x] ! n = (if i = n then x else xs ! n)"
  by auto

lemma grid_shape_set: "grid_shape V \<Longrightarrow> grid_shape (grid_set V s v)"
  by (auto simp: grid_shape_def grid_set_def list_all_length nth_update_if)

lemma grid_get_set:
  assumes "grid_shape V" "in_grid s" "in_grid t"
  shows "grid_get (grid_set V s v) t = (if s = t then v else grid_get V t)"
proof -
  obtain i j where s: "s = (i, j)" by (cases s)
  obtain k l where t: "t = (k, l)" by (cases t)
  have len: "length V = 4" "\<And>n. n < 4 \<Longrightarrow> length (V ! n) = 4"
    using assms(1) by (auto simp: grid_shape_def GRID_SIZE_def list_all_length)
  have b: "nat i < 4" "nat j < 4" "nat k < 4" "nat l < 4" "0 \<le> i" "0 \<le> j" "0 \<le> k" "0 \<le> l"
    using assms(2,3) by (auto simp: in_grid_def s t GRID_SIZE_def)
  show ?thesis
    using len b by (auto simp: grid_get_def grid_set_def s t nth_list_update)
qed

lemma all_nonpos_set: "all_nonpos V \<Longrightarrow> v \<le> 0 \<Longrightarrow> all_nonpos (grid_set V s v)"
  by (auto simp: all_nonpos_def grid_set_def list_all_length nth_update_if split: if_splits)

lemma all_nonpos_get: "all_nonpos V \<Longrightarrow> grid_shape V \<Longrightarrow> in_grid s \<Longrightarrow> grid_get V s \<le> 0"
  by (auto simp: all_nonpos_def grid_shape_def in_grid_def grid_get_def list_all_length GRID_SIZE_def)

lemma foldl_fst_invariant:
  assumes "P (fst acc)" "\<And>a s. s \<in> set cs \<Longrightarrow> P (fst a) \<Longrightarrow> P (fst (f a s))"
  shows "P (fst (foldl f acc cs))"
  using assms by (induction cs arbitrary: acc) auto

lemma in_grid_terminal: "in_grid (0, 0)"
  by (simp add: in_grid_def GRID_SIZE_def)

subsection \<open>Sweeps of value iteration\<close>

lemma vi_cell_shape: "grid_shape (fst acc) \<Longrightarrow> grid_shape (fst (vi_cell \<gamma> V acc s))"
  by (cases acc) (simp add: vi_cell_def Let_def grid_shape_set)

lemma vi_cell_terminal:
  assumes "grid_shape (fst acc) \<and> grid_get (fst acc) (0, 0) = 0" "in_grid s"
  shows "grid_shape (fst (vi_cell \<gamma> V acc s)) \<and> grid_get (fst (vi_cell \<gamma> V acc s)) (0, 0) = 0"
  using assms
  by (cases acc) (simp add: vi_cell_def Let_def grid_shape_set grid_get_set in_grid_terminal is_terminal_def)

lemma vi_sweep_shape: "grid_shape V \<Longrightarrow> grid_shape (fst (vi_sweep \<gamma> V))"
  unfolding vi_sweep_def
  by (rule foldl_fst_invariant) (simp_all add: vi_cell_shape)

lemma vi_sweep_terminal:
  assumes "grid_shape V" "grid_get V (0, 0) = 0"
  shows "grid_get (fst (vi_sweep \<gamma> V)) (0, 0) = 0"
proof -
  have "grid_shape (fst (vi_sweep \<gamma> V)) \<and> grid_get (fst (vi_sweep \<gamma> V)) (0, 0) = 0"
    unfolding vi_sweep_def
    by (rule foldl_fst_invariant) (use assms in \<open>simp_all add: vi_cell_terminal in_grid_cells\<close>)
  then show ?thesis by simp
qed

lemma vi_action_value_le:
  assumes "0 \<le> \<gamma>" "grid_shape V" "all_nonpos V" "in_grid s"
  shows "vi_action_value \<gamma> V s a \<le> - 1"
proof -
  obtain i j where s: "s = (i, j)" by (cases s)
  have self: "\<gamma> * grid_get V (i, j) \<le> 0"
    using assms all_nonpos_get[of V s] by (simp add: s mult_nonneg_nonpos)
  have other: "\<gamma> * grid_get V (ni, nj) \<le> 0"
    if "0 \<le> ni \<and> ni < GRID_SIZE \<and> 0 \<le> nj \<and> nj < GRID_SIZE" for ni nj
    using assms that all_nonpos_get[of V "(ni, nj)"] by (simp add: in_grid_def mult_nonneg_nonpos)
  show ?thesis
    using self other by (simp add: vi_action_value_def s Let_def)
qed

lemma fold_max_le: "x \<le> c \<Longrightarrow> \<forall>y\<in>set xs. y \<le> c \<Longrightarrow> fold max xs x \<le> (c::real)"
  by (induction xs arbitrary: x) auto

lemma py_max_actions_le:
  assumes "\<And>a. f a \<le> c"
  shows "py_max (map f actions) \<le> c"
  using assms by (simp add: actions_def)

lemma vi_cell_nonpos:
  assumes "0 \<le> \<gamma>" "grid_shape V" "all_nonpos V" "in_grid s" "all_nonpos (fst acc)"
  shows "all_nonpos (fst (vi_cell \<gamma> V acc s))"
proof -
  have "py_max (map (vi_action_value \<gamma> V s) actions) \<le> - 1"
    by (rule py_max_actions_le) (rule vi_action_value_le[OF assms(1-4)])
  then show ?thesis
    using assms(5) by (cases acc) (simp add: vi_cell_def Let_def all_nonpos_set)
qed

lemma vi_sweep_nonpos:
  assumes "0 \<le> \<gamma>" "grid_shape V" "all_nonpos V"
  shows "all_nonpos (fst (vi_sweep \<gamma> V))"
  unfolding vi_sweep_def
  by (rule foldl_fst_invariant) (use assms in \<open>simp_all add: vi_cell_nonpos in_grid_cells\<close>)

lemma vi_cell_delta: "snd acc \<le> snd (vi_cell \<gamma> V acc s)"
  by (cases acc) (simp add: vi_cell_def Let_def)

lemma foldl_vi_cell_delta: "snd acc \<le> snd (foldl (vi_cell \<gamma> V) acc cs)"
proof (induction cs arbitrary: acc)
  case Nil
  show ?case by simp
next
  case (Cons s cs)
  have "snd acc \<le> snd (vi_cell \<gamma> V acc s)" by (rule vi_cell_delta)
  also have "\<dots> \<le> snd (foldl (vi_cell \<gamma> V) (vi_cell \<gamma> V acc s) cs)" by (rule Cons.IH)
  finally show ?case by simp
qed

lemma vi_sweep_delta_nonneg: "0 \<le> snd (vi_sweep \<gamma> V)"
  using foldl_vi_cell_delta[of "(V, 0)" \<gamma> V cells] by (simp add: vi_sweep_def)

lemma vi_tables_Suc: "vi_tables \<gamma> (Suc n) = fst (vi_sweep \<gamma> (vi_tables \<gamma> n))"
  by (simp add: vi_tables_def)

lemma vi_tables_shape: "grid_shape (vi_tables \<gamma> n)"
  by (induction n) (simp_all add: vi_tables_Suc vi_sweep_shape, simp add: vi_tables_def grid_shape_init)

lemma vi_tables_terminal: "grid_get (vi_tables \<gamma> n) (0, 0) = 0"
  by (induction n) (simp_all add: vi_tables_Suc vi_sweep_terminal vi_tables_shape, simp add: vi_tables_def terminal_init)

lemma vi_tables_nonpos: "0 \<le> \<gamma> \<Longrightarrow> all_nonpos (vi_tables \<gamma> n)"
  by (induction n) (simp_all add: vi_tables_Suc vi_sweep_nonpos vi_tables_shape, simp add: vi_tables_def all_nonpos_init)

text \<open>The loop returns the table after as many sweeps as it counts.\<close>

lemma vi_loop_sweeps:
  "vi_loop \<gamma> \<theta> max_iters V iterations out = (V', iterations', out') \<Longrightarrow>
   \<exists>k. 1 \<le> k \<and> iterations' = iterations + int k
       \<and> V' = ((\<lambda>V. fst (vi_sweep \<gamma> V)) ^^ k) V
       \<and> iterations' \<le> max (iterations + 1) max_iters"
proof (induction \<gamma> \<theta> max_iters V iterations out rule: vi_loop.induct)
  case (1 \<gamma> \<theta> max_iters V iterations out)
  obtain new_V delta where sw: "vi_sweep \<gamma> V = (new_V, delta)" by (cases "vi_sweep \<gamma> V")
  define out1 where "out1 = (if (iterations + 1) mod 10 = 0
                    then out @ [Progress (iterations + 1) delta] else out)"
  show ?case
  proof (cases "delta < \<theta> \<or> iterations + 1 \<ge> max_iters")
    case True
    with "1.prems" sw have "V' = new_V" "iterations' = iterations + 1"
      by (simp_all add: vi_loop.simps[of \<gamma> \<theta> max_iters V iterations out] Let_def)
    with sw show ?thesis by (intro exI[of _ 1]) simp
  next
    case False
    with "1.prems" sw have rec: "vi_loop \<gamma> \<theta> max_iters new_V (iterations + 1) out1 = (V', iterations', out')"
      by (simp add: vi_loop.simps[of \<gamma> \<theta> max_iters V iterations out] Let_def out1_def)
    from "1.IH"[OF sw[symmetric] out1_def False rec]
    obtain k where k: "1 \<le> k" "iterations' = iterations + 1 + int k"
      "V' = ((\<lambda>V. fst (vi_sweep \<gamma> V)) ^^ k) new_V" "iterations' \<le> max (iterations + 1 + 1) max_iters"
      by auto
    show ?thesis
      using k sw False by (intro exI[of _ "Suc k"]) (simp add: funpow_Suc_right del: funpow.simps)
  qed
qed

subsection \<open>The environment\<close>

lemma get_next_states_env_step: "get_next_states s = map (env_step s) actions"
  by (cases s) (simp add: get_next_states_def env_step_def in_grid_def displaced_def Let_def)

lemma in_grid_env_step: "in_grid s \<Longrightarrow> in_grid (fst (env_step s a))"
  by (simp add: env_step_def)

subsection \<open>Sweeps of policy evaluation\<close>

lemma dp_value_sum_unfold:
  "dp_value_sum \<gamma> V s =
     1 / 4 * (- 1 + \<gamma> * grid_get V (fst (env_step s (0, - 1))))
   + 1 / 4 * (- 1 + \<gamma> * grid_get V (fst (env_step s (0, 1))))
   + 1 / 4 * (- 1 + \<gamma> * grid_get V (fst (env_step s (- 1, 0))))
   + 1 / 4 * (- 1 + \<gamma> * grid_get V (fst (env_step s (1, 0))))"
  by (simp add: dp_value_sum_def get_next_states_env_step actions_def ACTIONS_def env_step_def)

lemma dp_value_sum_le:
  assumes "0 \<le> \<gamma>" "grid_shape V" "all_nonpos V" "in_grid s"
  shows "dp_value_sum \<gamma> V s \<le> - 1"
proof -
  define t where "t a = \<gamma> * grid_get V (fst (env_step s a))" for a
  have "t a \<le> 0" for a
    using assms all_nonpos_get[OF assms(3,2) in_grid_env_step[OF assms(4)]]
    by (simp add: t_def mult_nonneg_nonpos)
  from this[of "(0, - 1)"] this[of "(0, 1)"] this[of "(- 1, 0)"] this[of "(1, 0)"]
  have "1 / 4 * (- 1 + t (0, - 1)) + 1 / 4 * (- 1 + t (0, 1))
      + 1 / 4 * (- 1 + t (- 1, 0)) + 1 / 4 * (- 1 + t (1, 0)) \<le> - 1"
    by argo
  then show ?thesis by (simp add: dp_value_sum_unfold t_def)
qed

lemma dp_cell_shape: "grid_shape (fst acc) \<Longrightarrow> grid_shape (fst (dp_cell \<gamma> V acc s))"
  by (cases acc) (simp add: dp_cell_def grid_shape_set)

lemma dp_cell_terminal:
  assumes "grid_shape (fst acc) \<and> grid_get (fst acc) (0, 0) = 0" "in_grid s"
  shows "grid_shape (fst (dp_cell \<gamma> V acc s)) \<and> grid_get (fst (dp_cell \<gamma> V acc s)) (0, 0) = 0"
  using assms
  by (cases acc) (simp add: dp_cell_def grid_shape_set grid_get_set in_grid_terminal is_terminal_def)

lemma dp_cell_nonpos:
  assumes "0 \<le> \<gamma>" "grid_shape V" "all_nonpos V" "in_grid s" "all_nonpos (fst acc)"
  shows "all_nonpos (fst (dp_cell \<gamma> V acc s))"
  using assms(5) dp_value_sum_le[OF assms(1-4)]
  by (cases acc) (simp add: dp_cell_def all_nonpos_set)

lemma dp_sweep_shape: "grid_shape V \<Longrightarrow> grid_shape (fst (dp_sweep \<gamma> V))"
  unfolding dp_sweep_def
  by (rule foldl_fst_invariant) (simp_all add: dp_cell_shape)

lemma dp_sweep_terminal:
  assumes "grid_shape V" "grid_get V (0, 0) = 0"
  shows "grid_get (fst (dp_sweep \<gamma> V)) (0, 0) = 0"
proof -
  have "grid_shape (fst (dp_sweep \<gamma> V)) \<and> grid_get (fst (dp_sweep \<gamma> V)) (0, 0) = 0"
    unfolding dp_sweep_def
    by (rule foldl_fst_invariant) (use assms in \<open>simp_all add: dp_cell_terminal in_grid_cells\<close>)
  then show ?thesis by simp
qed

lemma dp_sweep_nonpos:
  assumes "0 \<le> \<gamma>" "grid_shape V" "all_nonpos V"
  shows "all_nonpos (fst (dp_sweep \<gamma> V))"
  unfolding dp_sweep_def
  by (rule foldl_fst_invariant) (use assms in \<open>simp_all add: dp_cell_nonpos in_grid_cells\<close>)

lemma dp_cell_delta: "snd acc \<le> snd (dp_cell \<gamma> V acc s)"
  by (cases acc) (simp add: dp_cell_def)

lemma foldl_dp_cell_delta: "snd acc \<le> snd (foldl (dp_cell \<gamma> V) acc cs)"
proof (induction cs arbitrary: acc)
  case Nil
  show ?case by simp
next
  case (Cons s cs)
  have "snd acc \<le> snd (dp_cell \<gamma> V acc s)" by (rule dp_cell_delta)
  also have "\<dots> \<le> snd (foldl (dp_cell \<gamma> V) (dp_cell \<gamma> V acc s) cs)" by (rule Cons.IH)
  finally show ?case by simp
qed

lemma dp_sweep_delta_nonneg: "0 \<le> snd (dp_sweep \<gamma> V)"
  using foldl_dp_cell_delta[of "(V, 0)" \<gamma> V cells] by (simp add: dp_sweep_def)

lemma dp_tables_Suc: "dp_tables \<gamma> (Suc n) = fst (dp_sweep \<gamma> (dp_tables \<gamma> n))"
  by (simp add: dp_tables_def)

lemma dp_tables_shape: "grid_shape (dp_tables \<gamma> n)"
  by (induction n) (simp_all add: dp_tables_Suc dp_sweep_shape, simp add: dp_tables_def grid_shape_init)

lemma dp_tables_terminal: "grid_get (dp_tables \<gamma> n) (0, 0) = 0"
  by (induction n) (simp_all add: dp_tables_Suc dp_sweep_terminal dp_tables_shape, simp add: dp_tables_def terminal_init)

lemma dp_tables_nonpos: "0 \<le> \<gamma> \<Longrightarrow> all_nonpos (dp_tables \<gamma> n)"
  by (induction n) (simp_all add: dp_tables_Suc dp_sweep_nonpos dp_tables_shape, simp add: dp_tables_def all_nonpos_init)

text \<open>When the loop returns, it returns the table after some number of sweeps.\<close>

lemma dp_loop_sweeps:
  assumes "dp_loop \<gamma> \<theta> V = Some V'"
  shows "\<exists>k. 1 \<le> k \<and> V' = ((\<lambda>V. fst (dp_sweep \<gamma> V)) ^^ k) V"
proof (rule dp_loop.raw_induct
    [where P = "\<lambda>\<gamma> \<theta> V V'. \<exists>k. 1 \<le> k \<and> V' = ((\<lambda>V. fst (dp_sweep \<gamma> V)) ^^ k) V", OF _ assms])
  fix f \<gamma> \<theta> V V'
  assume IH: "\<And>\<gamma> \<theta> V V'. f \<gamma> \<theta> V = Some V'
      \<Longrightarrow> \<exists>k. 1 \<le> k \<and> V' = ((\<lambda>V. fst (dp_sweep \<gamma> V)) ^^ k) V"
    and body: "(case dp_sweep \<gamma> V of
                  (new_V, delta) \<Rightarrow> if delta < \<theta> then Some new_V else f \<gamma> \<theta> new_V) = Some V'"
  obtain new_V delta where sw: "dp_sweep \<gamma> V = (new_V, delta)" by (cases "dp_sweep \<gamma> V")
  show "\<exists>k. 1 \<le> k \<and> V' = ((\<lambda>V. fst (dp_sweep \<gamma> V)) ^^ k) V"
  proof (cases "delta < \<theta>")
    case True
    with body sw have "V' = new_V" by simp
    with sw show ?thesis by (intro exI[of _ 1]) simp
  next
    case False
    with body sw have "f \<gamma> \<theta> new_V = Some V'" by simp
    from IH[OF this] obtain k where "1 \<le> k" "V' = ((\<lambda>V. fst (dp_sweep \<gamma> V)) ^^ k) new_V"
      by auto
    with sw show ?thesis
      by (intro exI[of _ "Suc k"]) (simp add: funpow_Suc_right del: funpow.simps)
  qed
qed

text \<open>The exit test \<^verbatim>\<open>delta < THETA\<close> never holds for a threshold that is not positive.\<close>

lemma dp_loop_positive_threshold:
  assumes "dp_loop \<gamma> \<theta> V = Some V'"
  shows "0 < \<theta>"
proof (rule dp_loop.raw_induct[where P = "\<lambda>\<gamma> \<theta> V V'. 0 < \<theta>", OF _ assms])
  fix f \<gamma> \<theta> V V'
  assume IH: "\<And>\<gamma> \<theta> V V'. f \<gamma> \<theta> V = Some V' \<Longrightarrow> 0 < (\<theta>::real)"
    and body: "(case dp_sweep \<gamma> V of
                  (new_V, delta) \<Rightarrow> if delta < \<theta> then Some new_V else f \<gamma> \<theta> new_V) = Some V'"
  obtain new_V delta where sw: "dp_sweep \<gamma> V = (new_V, delta)" by (cases "dp_sweep \<gamma> V")
  have d: "0 \<le> delta" using dp_sweep_delta_nonneg[of \<gamma> V] sw by simp
  show "0 < \<theta>"
  proof (cases "delta < \<theta>")
    case True
    with d show ?thesis by simp
  next
    case False
    with body sw have "f \<gamma> \<theta> new_V = Some V'" by simp
    then show ?thesis by (rule IH)
  qed
qed

lemma dp_loop_nonterminating: "\<theta> \<le> 0 \<Longrightarrow> dp_loop \<gamma> \<theta> V = None"
  using dp_loop_positive_threshold[of \<gamma> \<theta> V] by (cases "dp_loop \<gamma> \<theta> V") auto

subsection \<open>TD(0)\<close>

lemma get_next_state_env_step:
  assumes "in_grid s" "0 \<le> a" "a < 4"
  shows "get_next_state s a = fst (env_step s (action_offset a))"
proof -
  from assms(2,3) have "a = 0 \<or> a = 1 \<or> a = 2 \<or> a = 3" by arith
  then show ?thesis
    using assms(1)
    by (cases s)
       (auto simp: get_next_state_def env_step_def action_offset_def in_grid_def displaced_def
          GRID_SIZE_def)
qed

lemma in_grid_get_next_state: "in_grid s \<Longrightarrow> in_grid (get_next_state s a)"
  by (cases s) (auto simp: get_next_state_def in_grid_def GRID_SIZE_def)

lemma td_update_next: "snd (td_update \<alpha> \<gamma> V s a) = get_next_state s a"
  by (simp add: td_update_def Let_def)

lemma td_update_shape: "grid_shape V \<Longrightarrow> grid_shape (fst (td_update \<alpha> \<gamma> V s a))"
  by (simp add: td_update_def Let_def grid_shape_set)

lemma td_update_terminal:
  assumes "grid_shape V \<and> grid_get V (0, 0) = 0" "in_grid s" "s \<noteq> (0, 0)"
  shows "grid_shape (fst (td_update \<alpha> \<gamma> V s a)) \<and> grid_get (fst (td_update \<alpha> \<gamma> V s a)) (0, 0) = 0"
  using assms by (simp add: td_update_def Let_def grid_shape_set grid_get_set in_grid_terminal)

lemma td_target_nonpos:
  fixes v v' :: real
  assumes "0 \<le> \<alpha>" "\<alpha> \<le> 1" "0 \<le> \<gamma>" "v \<le> 0" "v' \<le> 0"
  shows "v + \<alpha> * (- 1 + \<gamma> * v' - v) \<le> 0"
proof -
  have "v + \<alpha> * (- 1 + \<gamma> * v' - v) = (1 - \<alpha>) * v + \<alpha> * (- 1 + \<gamma> * v')"
    by (simp add: algebra_simps)
  moreover have "(1 - \<alpha>) * v \<le> 0" using assms by (simp add: mult_nonneg_nonpos)
  moreover have "\<gamma> * v' \<le> 0" using assms by (simp add: mult_nonneg_nonpos)
  then have "- 1 + \<gamma> * v' \<le> 0" by simp
  with assms(1) have "\<alpha> * (- 1 + \<gamma> * v') \<le> 0" by (rule mult_nonneg_nonpos)
  ultimately show ?thesis by linarith
qed

lemma td_update_nonpos:
  assumes "0 \<le> \<alpha>" "\<alpha> \<le> 1" "0 \<le> \<gamma>" "grid_shape V \<and> all_nonpos V" "in_grid s"
  shows "grid_shape (fst (td_update \<alpha> \<gamma> V s a)) \<and> all_nonpos (fst (td_update \<alpha> \<gamma> V s a))"
proof -
  have "grid_get V s \<le> 0" "grid_get V (get_next_state s a) \<le> 0"
    using assms by (simp_all add: all_nonpos_get in_grid_get_next_state)
  from td_target_nonpos[OF assms(1-3) this]
  show ?thesis using assms(4) by (simp add: td_update_def Let_def grid_shape_set all_nonpos_set)
qed

lemma td_episode_invariant:
  "(\<And>V s a. P V \<Longrightarrow> in_grid s \<Longrightarrow> s \<noteq> (0, 0) \<Longrightarrow> P (fst (td_update \<alpha> \<gamma> V s a)))
   \<Longrightarrow> P V \<Longrightarrow> in_grid state \<Longrightarrow> td_episode \<alpha> \<gamma> V state rnd = Some (V', rnd')
   \<Longrightarrow> P V' \<and> (\<exists>used. rnd = used @ rnd')"
proof (induction \<alpha> \<gamma> V state rnd rule: td_episode.induct)
  case (1 \<alpha> \<gamma> V state rnd)
  note step = "1.prems"(1) and PV = "1.prems"(2) and inside = "1.prems"(3) and run = "1.prems"(4)
  show ?case
  proof (cases "state = (0, 0)")
    case True
    with PV run show ?thesis
      unfolding td_episode.simps[of \<alpha> \<gamma> V state rnd] by simp
  next
    case False
    with run obtain action rest where rnd: "rnd = action # rest"
      unfolding td_episode.simps[of \<alpha> \<gamma> V state rnd] by (cases rnd) simp_all
    obtain V1 next_state where up: "td_update \<alpha> \<gamma> V state action = (V1, next_state)"
      by (cases "td_update \<alpha> \<gamma> V state action")
    have run1: "td_episode \<alpha> \<gamma> V1 next_state rest = Some (V', rnd')"
      using run False rnd up
      unfolding td_episode.simps[of \<alpha> \<gamma> V state rnd] by simp
    have "P V1" using up step[OF PV inside False, of action] by simp
    moreover have "in_grid next_state"
      using up in_grid_get_next_state[OF inside, of action]
        td_update_next[of \<alpha> \<gamma> V state action]
      by simp
    ultimately have "P V' \<and> (\<exists>used. rest = used @ rnd')"
      using "1.IH"[OF False rnd up[symmetric] step _ _ run1] by simp
    then show ?thesis using rnd by auto
  qed
qed

lemma draws_ok_append: "draws_ok (xs @ ys) \<Longrightarrow> draws_ok ys"
  by (simp add: draws_ok_def)

lemma td_episodes_invariant:
  assumes step: "\<And>V s a. P V \<Longrightarrow> in_grid s \<Longrightarrow> s \<noteq> (0, 0) \<Longrightarrow> P (fst (td_update \<alpha> \<gamma> V s a))"
  shows "P V \<Longrightarrow> draws_ok rnd \<Longrightarrow> td_episodes \<alpha> \<gamma> es V rnd = Some (V', rnd') \<Longrightarrow> P V'"
proof (induction es arbitrary: V rnd)
  case Nil
  then show ?case by simp
next
  case (Cons episode es)
  from Cons.prems(3) obtain i j rest where rnd: "rnd = i # j # rest"
    by (cases rnd rule: td_start_state.cases) auto
  from Cons.prems(3) rnd obtain V1 rnd1 where
    ep: "td_episode \<alpha> \<gamma> V (i, j) rest = Some (V1, rnd1)"
    and run: "td_episodes \<alpha> \<gamma> es V1 rnd1 = Some (V', rnd')"
    by (auto split: option.splits)
  have start: "in_grid (i, j)" and rest: "draws_ok rest"
    using Cons.prems(2) rnd by (simp_all add: draws_ok_def in_grid_def GRID_SIZE_def)
  from td_episode_invariant[of P \<alpha> \<gamma>, OF step Cons.prems(1) start ep]
  obtain used where "P V1" "rest = used @ rnd1" by auto
  with rest have "P V1" "draws_ok rnd1" by (auto dest: draws_ok_append)
  then show ?case using Cons.IH run by blast
qed

lemma td_prediction_invariant:
  assumes step: "\<And>V s a. P V \<Longrightarrow> in_grid s \<Longrightarrow> s \<noteq> (0, 0) \<Longrightarrow> P (fst (td_update \<alpha> \<gamma> V s a))"
    and "P initialize_grid" "draws_ok rnd" "td_prediction \<alpha> \<gamma> episodes rnd = Some V"
  shows "P V"
proof -
  from assms(4) obtain rnd' where
    "td_episodes \<alpha> \<gamma> [1..episodes] initialize_grid rnd = Some (V, rnd')"
    by (auto simp: td_prediction_def)
  from td_episodes_invariant[of P \<alpha> \<gamma>, OF step assms(2,3) this] show ?thesis .
qed

subsection \<open>Policy evaluation on integers computes the sweeps of the notebook\<close>

lemma to_grid_shape: "int_shape N \<Longrightarrow> grid_shape (to_grid Q N)"
  by (simp add: int_shape_def grid_shape_def to_grid_def list_all_iff)

lemma int_shape_set: "int_shape N \<Longrightarrow> int_shape (int_set N s v)"
  by (auto simp: int_shape_def int_set_def list_all_length nth_update_if)

lemma grid_get_to_grid:
  "int_shape N \<Longrightarrow> in_grid s \<Longrightarrow> grid_get (to_grid Q N) s = real_of_int (int_get N s) / real_of_int Q"
  by (auto simp: int_shape_def in_grid_def grid_get_def int_get_def to_grid_def list_all_length
      GRID_SIZE_def)

lemma to_grid_set:
  "to_grid Q (int_set N s v) = grid_set (to_grid Q N) s (real_of_int v / real_of_int Q)"
  by (cases "nat (fst s) < length N")
     (simp_all add: to_grid_def int_set_def grid_set_def map_update list_update_beyond)

lemma to_grid_rescale: "0 < Q \<Longrightarrow> to_grid (40 * Q) (map (map (\<lambda>n. 40 * n)) N) = to_grid Q N"
  by (simp add: to_grid_def)

lemma dp_int_value_sum_unfold:
  "dp_int_value_sum Q N s =
     9 * (int_get N (fst (env_step s (0, - 1))) + int_get N (fst (env_step s (0, 1)))
        + int_get N (fst (env_step s (- 1, 0))) + int_get N (fst (env_step s (1, 0)))) - 40 * Q"
  by (simp add: dp_int_value_sum_def get_next_states_env_step actions_def env_step_def)

lemma dp_value_sum_to_grid:
  assumes "0 < Q" "int_shape N" "in_grid s"
  shows "dp_value_sum (9 / 10) (to_grid Q N) s
     = real_of_int (dp_int_value_sum Q N s) / real_of_int (40 * Q)"
proof -
  have g: "grid_get (to_grid Q N) (fst (env_step s a))
      = real_of_int (int_get N (fst (env_step s a))) / real_of_int Q" for a
    by (rule grid_get_to_grid[OF assms(2) in_grid_env_step[OF assms(3)]])
  show ?thesis
    using assms(1) unfolding dp_value_sum_unfold dp_int_value_sum_unfold g
    by (simp add: field_simps)
qed

lemma max_abs_scaled:
  assumes "0 < q"
  shows "max (real_of_int D / real_of_int q)
           \<bar>real_of_int x / real_of_int q - real_of_int y / real_of_int q\<bar>
     = real_of_int (max D \<bar>x - y\<bar>) / real_of_int q"
proof -
  have pos: "0 < real_of_int q" using assms by simp
  have "\<bar>real_of_int x / real_of_int q - real_of_int y / real_of_int q\<bar>
      = \<bar>real_of_int x - real_of_int y\<bar> / real_of_int q"
    using pos by (simp add: diff_divide_distrib[symmetric] abs_divide del: of_int_diff)
  also have "\<dots> = real_of_int \<bar>x - y\<bar> / real_of_int q" by simp
  finally have e: "\<bar>real_of_int x / real_of_int q - real_of_int y / real_of_int q\<bar>
      = real_of_int \<bar>x - y\<bar> / real_of_int q" .
  have "max (real_of_int D / real_of_int q) (real_of_int \<bar>x - y\<bar> / real_of_int q)
      = max (real_of_int D) (real_of_int \<bar>x - y\<bar>) / real_of_int q"
    using pos by (simp add: max_def divide_le_cancel)
  also have "\<dots> = real_of_int (max D \<bar>x - y\<bar>) / real_of_int q"
    by (simp only: of_int_max)
  finally show ?thesis unfolding e .
qed

lemma dp_cell_to_grid:
  assumes "0 < Q" "int_shape N" "in_grid s"
  shows "dp_cell (9 / 10) (to_grid Q N) (to_grid (40 * Q) M, real_of_int D / real_of_int (40 * Q)) s
     = (to_grid (40 * Q) (fst (dp_int_cell Q N (M, D) s)),
        real_of_int (snd (dp_int_cell Q N (M, D) s)) / real_of_int (40 * Q))"
proof (cases "is_terminal s")
  case True
  then show ?thesis by (simp add: dp_cell_def dp_int_cell_def)
next
  case False
  have q: "0 < 40 * Q" using assms(1) by simp
  have old: "grid_get (to_grid Q N) s = real_of_int (40 * int_get N s) / real_of_int (40 * Q)"
    using assms by (simp add: grid_get_to_grid)
  show ?thesis
    using False
    by (simp only: dp_cell_def dp_int_cell_def dp_value_sum_to_grid[OF assms] old to_grid_set
        max_abs_scaled[OF q] prod.case if_False fst_conv snd_conv)
qed

lemma foldl_dp_cell_to_grid:
  assumes "0 < Q" "int_shape N" "\<forall>s\<in>set cs. in_grid s"
  shows "foldl (dp_cell (9 / 10) (to_grid Q N))
           (to_grid (40 * Q) M, real_of_int D / real_of_int (40 * Q)) cs
     = (to_grid (40 * Q) (fst (foldl (dp_int_cell Q N) (M, D) cs)),
        real_of_int (snd (foldl (dp_int_cell Q N) (M, D) cs)) / real_of_int (40 * Q))"
  using assms(3)
proof (induction cs arbitrary: M D)
  case Nil
  show ?case by simp
next
  case (Cons s cs)
  obtain M1 D1 where step: "dp_int_cell Q N (M, D) s = (M1, D1)"
    by (cases "dp_int_cell Q N (M, D) s")
  have "in_grid s" using Cons.prems by simp
  from dp_cell_to_grid[OF assms(1,2) this, of M D] step Cons.IH[of M1 D1] Cons.prems
  show ?case by simp
qed

lemma dp_sweep_to_grid:
  assumes "0 < Q" "int_shape N"
  shows "dp_sweep (9 / 10) (to_grid Q N)
     = (to_grid (40 * Q) (fst (dp_int_sweep Q N)),
        real_of_int (snd (dp_int_sweep Q N)) / real_of_int (40 * Q))"
proof -
  have "dp_sweep (9 / 10) (to_grid Q N)
      = foldl (dp_cell (9 / 10) (to_grid Q N))
          (to_grid (40 * Q) (map (map (\<lambda>n. 40 * n)) N), real_of_int 0 / real_of_int (40 * Q)) cells"
    using assms(1) by (simp add: dp_sweep_def to_grid_rescale)
  also have "\<dots> = (to_grid (40 * Q) (fst (dp_int_sweep Q N)),
        real_of_int (snd (dp_int_sweep Q N)) / real_of_int (40 * Q))"
    unfolding dp_int_sweep_def
    by (rule foldl_dp_cell_to_grid[OF assms]) (simp add: in_grid_cells)
  finally show ?thesis .
qed

lemma dp_int_cell_shape: "int_shape (fst acc) \<Longrightarrow> int_shape (fst (dp_int_cell Q N acc s))"
  by (cases acc) (simp add: dp_int_cell_def int_shape_set)

lemma dp_int_sweep_shape: "int_shape N \<Longrightarrow> int_shape (fst (dp_int_sweep Q N))"
  unfolding dp_int_sweep_def
  by (rule foldl_fst_invariant) (simp_all add: dp_int_cell_shape, simp add: int_shape_def list_all_iff)

lemma dp_int_loop_refines:
  "dp_int_loop fuel Q N = Some (Q', N') \<Longrightarrow> 0 < Q \<Longrightarrow> int_shape N
   \<Longrightarrow> dp_loop (9 / 10) (1 / 10000) (to_grid Q N) = Some (to_grid Q' N') \<and> 0 < Q' \<and> int_shape N'"
proof (induction fuel arbitrary: Q N)
  case 0
  then show ?case by simp
next
  case (Suc fuel)
  obtain new_N delta where sw: "dp_int_sweep Q N = (new_N, delta)"
    by (cases "dp_int_sweep Q N")
  have shape: "int_shape new_N" using dp_int_sweep_shape[OF Suc.prems(3), of Q] sw by simp
  have real_sw: "dp_sweep (9 / 10) (to_grid Q N)
      = (to_grid (40 * Q) new_N, real_of_int delta / real_of_int (40 * Q))"
    using dp_sweep_to_grid[OF Suc.prems(2,3)] sw by simp
  have test: "(real_of_int delta / real_of_int (40 * Q) < 1 / 10000) = (10000 * delta < 40 * Q)"
  proof -
    have "(real_of_int delta / real_of_int (40 * Q) < 1 / 10000)
        = (real_of_int (10000 * delta) < real_of_int (40 * Q))"
      using Suc.prems(2) by (simp add: field_simps)
    then show ?thesis by (simp only: of_int_less_iff)
  qed
  have unfold: "dp_loop (9 / 10) (1 / 10000) (to_grid Q N)
      = (if 10000 * delta < 40 * Q then Some (to_grid (40 * Q) new_N)
         else dp_loop (9 / 10) (1 / 10000) (to_grid (40 * Q) new_N))"
    by (subst dp_loop.simps) (simp only: real_sw prod.case test)
  show ?case
  proof (cases "10000 * delta < 40 * Q")
    case True
    with Suc.prems(1) sw have "Q' = 40 * Q" "N' = new_N" by simp_all
    with True shape Suc.prems(2) show ?thesis
      by (simp only: unfold if_True) simp
  next
    case False
    with Suc.prems(1) sw have "dp_int_loop fuel (40 * Q) new_N = Some (Q', N')" by simp
    from Suc.IH[OF this _ shape] Suc.prems(2)
    have "dp_loop (9 / 10) (1 / 10000) (to_grid (40 * Q) new_N) = Some (to_grid Q' N')
        \<and> 0 < Q' \<and> int_shape N'" by simp
    with False show ?thesis
      by (simp only: unfold if_False)
  qed
qed

lemma dp_int_sweep_unrolled:
  "dp_int_sweep Q [[a0, a1, a2, a3], [b0, b1, b2, b3], [c0, c1, c2, c3], [d0, d1, d2, d3]] =
    (let q = 40 * Q;
         a1' = 9 * (a0 + a2 + a1 + b1) - q; a2' = 9 * (a1 + a3 + a2 + b2) - q;
         a3' = 9 * (a2 + a3 + a3 + b3) - q;
         b0' = 9 * (b0 + b1 + a0 + c0) - q; b1' = 9 * (b0 + b2 + a1 + c1) - q;
         b2' = 9 * (b1 + b3 + a2 + c2) - q; b3' = 9 * (b2 + b3 + a3 + c3) - q;
         c0' = 9 * (c0 + c1 + b0 + d0) - q; c1' = 9 * (c0 + c2 + b1 + d1) - q;
         c2' = 9 * (c1 + c3 + b2 + d2) - q; c3' = 9 * (c2 + c3 + b3 + d3) - q;
         d0' = 9 * (d0 + d1 + c0 + d0) - q; d1' = 9 * (d0 + d2 + c1 + d1) - q;
         d2' = 9 * (d1 + d3 + c2 + d2) - q; d3' = 9 * (d2 + d3 + c3 + d3) - q
     in ([[40 * a0, a1', a2', a3'], [b0', b1', b2', b3'], [c0', c1', c2', c3'], [d0', d1', d2', d3']],
         max (max (max (max (max (max (max (max (max (max (max (max (max (max (max 0
           \<bar>a1' - 40 * a1\<bar>) \<bar>a2' - 40 * a2\<bar>) \<bar>a3' - 40 * a3\<bar>)
           \<bar>b0' - 40 * b0\<bar>) \<bar>b1' - 40 * b1\<bar>) \<bar>b2' - 40 * b2\<bar>) \<bar>b3' - 40 * b3\<bar>)
           \<bar>c0' - 40 * c0\<bar>) \<bar>c1' - 40 * c1\<bar>) \<bar>c2' - 40 * c2\<bar>) \<bar>c3' - 40 * c3\<bar>)
           \<bar>d0' - 40 * d0\<bar>) \<bar>d1' - 40 * d1\<bar>) \<bar>d2' - 40 * d2\<bar>) \<bar>d3' - 40 * d3\<bar>))"
  unfolding Let_def dp_int_sweep_def cells_eval dp_int_cell_def dp_int_value_sum_unfold
  by (simp add: is_terminal_def env_step_def in_grid_def displaced_def GRID_SIZE_def
      int_get_def int_set_def eval_nat_numeral
      del: max.absorb1 max.absorb2 max.absorb3 max.absorb4 max.bounded_iff)

lemma dp_int_loop_numeral:
  "dp_int_loop (numeral k) Q N =
     (case dp_int_sweep Q N of (new_N, delta) \<Rightarrow>
        if 10000 * delta < 40 * Q then Some (40 * Q, new_N)
        else dp_int_loop (pred_numeral k) (40 * Q) new_N)"
  by (simp add: numeral_eq_Suc)

lemma dp_int_loop_1:
  "dp_int_loop 1 Q N =
     (case dp_int_sweep Q N of (new_N, delta) \<Rightarrow>
        if 10000 * delta < 40 * Q then Some (40 * Q, new_N)
        else None)"
  by (cases "dp_int_sweep Q N") simp

section \<open>Value iteration on the notebook's configuration\<close>

lemmas vi_eval = vi_sweep_def cells_eval vi_cell_def is_terminal_def actions_def
  vi_action_value_def GRID_SIZE_def grid_get_def grid_set_def eval_nat_numeral

lemma vi_sweep_1: "vi_sweep 1 [[0,0,0,0],[0,0,0,0],[0,0,0,0],[0,0,0,0]]
    = ([[0,-1,-1,-1],[-1,-1,-1,-1],[-1,-1,-1,-1],[-1,-1,-1,-1]], 1)"
  by (simp add: vi_eval)

lemma vi_sweep_2: "vi_sweep 1 [[0,-1,-1,-1],[-1,-1,-1,-1],[-1,-1,-1,-1],[-1,-1,-1,-1]]
    = ([[0,-1,-2,-2],[-1,-2,-2,-2],[-2,-2,-2,-2],[-2,-2,-2,-2]], 1)"
  by (simp add: vi_eval)

lemma vi_sweep_3: "vi_sweep 1 [[0,-1,-2,-2],[-1,-2,-2,-2],[-2,-2,-2,-2],[-2,-2,-2,-2]]
    = ([[0,-1,-2,-3],[-1,-2,-3,-3],[-2,-3,-3,-3],[-3,-3,-3,-3]], 1)"
  by (simp add: vi_eval)

lemma vi_sweep_4: "vi_sweep 1 [[0,-1,-2,-3],[-1,-2,-3,-3],[-2,-3,-3,-3],[-3,-3,-3,-3]]
    = ([[0,-1,-2,-3],[-1,-2,-3,-4],[-2,-3,-4,-4],[-3,-4,-4,-4]], 1)"
  by (simp add: vi_eval)

lemma vi_sweep_5: "vi_sweep 1 [[0,-1,-2,-3],[-1,-2,-3,-4],[-2,-3,-4,-4],[-3,-4,-4,-4]]
    = ([[0,-1,-2,-3],[-1,-2,-3,-4],[-2,-3,-4,-5],[-3,-4,-5,-5]], 1)"
  by (simp add: vi_eval)

lemma vi_sweep_6: "vi_sweep 1 [[0,-1,-2,-3],[-1,-2,-3,-4],[-2,-3,-4,-5],[-3,-4,-5,-5]]
    = ([[0,-1,-2,-3],[-1,-2,-3,-4],[-2,-3,-4,-5],[-3,-4,-5,-6]], 1)"
  by (simp add: vi_eval)

lemma vi_sweep_7: "vi_sweep 1 [[0,-1,-2,-3],[-1,-2,-3,-4],[-2,-3,-4,-5],[-3,-4,-5,-6]]
    = ([[0,-1,-2,-3],[-1,-2,-3,-4],[-2,-3,-4,-5],[-3,-4,-5,-6]], 0)"
  by (simp add: vi_eval)

lemmas vi_sweeps = vi_sweep_1 vi_sweep_2 vi_sweep_3 vi_sweep_4 vi_sweep_5 vi_sweep_6 vi_sweep_7

lemma vi_loop_converges:
  assumes "7 \<le> max_iters"
  shows "vi_loop 1 (1 / 10000) max_iters initialize_grid 0 []
     = ([[0,-1,-2,-3],[-1,-2,-3,-4],[-2,-3,-4,-5],[-3,-4,-5,-6]], 7, [])"
  using assms by (simp add: initialize_grid_eval vi_loop.simps vi_sweeps)

text \<open>The run does not depend on the exact value of the threshold: every threshold in
  \<open>(0, 1]\<close> gives the same seven sweeps, since each sweep changes some value by exactly 1 or
  changes nothing.\<close>

lemma vi_loop_converges_any_threshold:
  assumes "7 \<le> max_iters" "0 < \<theta>" "\<theta> \<le> 1"
  shows "vi_loop 1 \<theta> max_iters initialize_grid 0 []
     = ([[0,-1,-2,-3],[-1,-2,-3,-4],[-2,-3,-4,-5],[-3,-4,-5,-6]], 7, [])"
  using assms by (simp add: initialize_grid_eval vi_loop.simps vi_sweeps)

lemma vi_loop_cap_6:
  "vi_loop 1 (1 / 10000) 6 initialize_grid 0 []
     = ([[0,-1,-2,-3],[-1,-2,-3,-4],[-2,-3,-4,-5],[-3,-4,-5,-6]], 6, [])"
  by (simp add: initialize_grid_eval vi_loop.simps vi_sweeps)

text \<open>
  C1. On the 4x4 grid with terminal state (0,0), \<^verbatim>\<open>value_iteration\<close> with \<open>\<gamma> = 1\<close>,
  \<open>\<theta> = 1e-4\<close> and an iteration cap of at least 7 leaves its loop with the counter
  \<open>iterations\<close> at 7, having printed no progress line, prints that it completed in 7
  iterations, and returns the grid of negated Manhattan distances.
\<close>

theorem value_iteration_seven_sweeps:
  assumes "7 \<le> max_iters"
  shows "vi_loop GAMMA_VI THETA max_iters initialize_grid 0 []
           = ([[0, - 1, - 2, - 3], [- 1, - 2, - 3, - 4], [- 2, - 3, - 4, - 5], [- 3, - 4, - 5, - 6]], 7, [])
       \<and> value_iteration_run GAMMA_VI THETA max_iters
           = ([Completed 7],
              [[0, - 1, - 2, - 3], [- 1, - 2, - 3, - 4], [- 2, - 3, - 4, - 5], [- 3, - 4, - 5, - 6]])
       \<and> value_iteration GAMMA_VI THETA max_iters
           = [[0, - 1, - 2, - 3], [- 1, - 2, - 3, - 4], [- 2, - 3, - 4, - 5], [- 3, - 4, - 5, - 6]]"
  using vi_loop_converges[OF assms]
  by (simp add: GAMMA_VI_def THETA_def value_iteration_def value_iteration_run_def)

theorem value_iteration_seven_sweeps_witness:
  "(7::int) \<le> 1000
   \<and> value_iteration_run GAMMA_VI THETA 1000
       = ([Completed 7],
          [[0, - 1, - 2, - 3], [- 1, - 2, - 3, - 4], [- 2, - 3, - 4, - 5], [- 3, - 4, - 5, - 6]])"
  using value_iteration_seven_sweeps[of 1000] by simp

section \<open>The environment transition\<close>

text \<open>
  C2. For every state of the grid and each of the four actions the transition yields reward
  \<open>-1\<close>, and the next state is the displaced coordinate when that lies on the grid and
  the state itself otherwise. This holds of \<^verbatim>\<open>get_next_states\<close> (both Bellman notebooks), of
  the transition written out inside \<^verbatim>\<open>value_iteration\<close>, and of \<^verbatim>\<open>get_next_state\<close> with
  the reward \<^verbatim>\<open>td_prediction\<close> attaches to it.
\<close>

theorem transition_displaces_or_stays:
  assumes "in_grid s"
  shows "get_next_states s
           = map (\<lambda>a. (if in_grid (displaced s a) then displaced s a else s, - 1)) actions
       \<and> length (get_next_states s) = 4
       \<and> (\<forall>t\<in>set (get_next_states s). snd t = - 1 \<and> in_grid (fst t))
       \<and> map (vi_action_value \<gamma> V s) actions
           = map (\<lambda>t. real_of_int (snd t) + \<gamma> * grid_get V (fst t)) (get_next_states s)
       \<and> (\<forall>a\<in>{0, 1, 2, 3}.
            get_next_state s a
              = (if in_grid (displaced s (action_offset a)) then displaced s (action_offset a) else s)
            \<and> td_update \<alpha> \<gamma> V s a
              = (grid_set V s
                   (grid_get V s
                      + \<alpha> * (- 1 + \<gamma> * grid_get V (get_next_state s a) - grid_get V s)),
                 get_next_state s a))"
proof (intro conjI)
  show g: "get_next_states s
      = map (\<lambda>a. (if in_grid (displaced s a) then displaced s a else s, - 1)) actions"
    by (simp add: get_next_states_env_step env_step_def)
  show "length (get_next_states s) = 4"
    by (simp add: get_next_states_env_step actions_def)
  show "\<forall>t\<in>set (get_next_states s). snd t = - 1 \<and> in_grid (fst t)"
    using assms by (auto simp: g)
  show "map (vi_action_value \<gamma> V s) actions
      = map (\<lambda>t. real_of_int (snd t) + \<gamma> * grid_get V (fst t)) (get_next_states s)"
    by (cases s)
       (simp add: get_next_states_def vi_action_value_def actions_def Let_def)
  show "\<forall>a\<in>{0, 1, 2, 3}.
      get_next_state s a
        = (if in_grid (displaced s (action_offset a)) then displaced s (action_offset a) else s)
      \<and> td_update \<alpha> \<gamma> V s a
        = (grid_set V s
             (grid_get V s + \<alpha> * (- 1 + \<gamma> * grid_get V (get_next_state s a) - grid_get V s)),
           get_next_state s a)"
  proof
    fix a :: int
    assume "a \<in> {0, 1, 2, 3}"
    then have "0 \<le> a" "a < 4" by auto
    from get_next_state_env_step[OF assms this]
    show "get_next_state s a
        = (if in_grid (displaced s (action_offset a)) then displaced s (action_offset a) else s)
      \<and> td_update \<alpha> \<gamma> V s a
        = (grid_set V s
             (grid_get V s + \<alpha> * (- 1 + \<gamma> * grid_get V (get_next_state s a) - grid_get V s)),
           get_next_state s a)"
      by (simp add: env_step_def td_update_def Let_def)
  qed
qed

text \<open>An agent in the corner \<open>(0, 0)\<close>: LEFT and UP leave it in place, RIGHT and DOWN move
  it, and every transition costs \<open>-1\<close>.\<close>

theorem transition_displaces_or_stays_witness:
  "in_grid (0, 0)
   \<and> get_next_states (0, 0) = [((0, 0), - 1), ((0, 1), - 1), ((0, 0), - 1), ((1, 0), - 1)]
   \<and> get_next_state (0, 0) 0 = (0, 0) \<and> get_next_state (0, 0) 1 = (1, 0)
   \<and> get_next_state (0, 0) 2 = (0, 0) \<and> get_next_state (0, 0) 3 = (0, 1)"
proof -
  have h: "in_grid (0, 0)" by (rule in_grid_terminal)
  from transition_displaces_or_stays[OF h, of 1 initialize_grid 1]
  show ?thesis
    using h by (simp add: actions_def displaced_def in_grid_def GRID_SIZE_def action_offset_def)
qed

section \<open>What the solvers return\<close>

lemma vi_loop_result:
  "\<exists>k. 1 \<le> k \<and> vi_loop \<gamma> \<theta> max_iters initialize_grid 0 out
          = (vi_tables \<gamma> k, int k, snd (snd (vi_loop \<gamma> \<theta> max_iters initialize_grid 0 out)))
       \<and> int k \<le> max 1 max_iters"
proof -
  obtain V' it' out' where r: "vi_loop \<gamma> \<theta> max_iters initialize_grid 0 out = (V', it', out')"
    by (cases "vi_loop \<gamma> \<theta> max_iters initialize_grid 0 out")
  from vi_loop_sweeps[OF r] obtain k where
    "1 \<le> k" "it' = int k" "V' = vi_tables \<gamma> k" "it' \<le> max 1 max_iters"
    by (auto simp: vi_tables_def)
  with r show ?thesis by (intro exI[of _ k]) simp
qed

lemma value_iteration_fst:
  "value_iteration \<gamma> \<theta> max_iters = fst (vi_loop \<gamma> \<theta> max_iters initialize_grid 0 [])"
  by (cases "vi_loop \<gamma> \<theta> max_iters initialize_grid 0 []")
     (simp add: value_iteration_def value_iteration_run_def)

lemma value_iteration_is_table: "\<exists>k. 1 \<le> k \<and> value_iteration \<gamma> \<theta> max_iters = vi_tables \<gamma> k"
proof -
  from vi_loop_result[of \<gamma> \<theta> max_iters "[]"] obtain k where
    "1 \<le> k" "fst (vi_loop \<gamma> \<theta> max_iters initialize_grid 0 []) = vi_tables \<gamma> k"
    by (metis fst_conv)
  then show ?thesis
    by (intro exI[of _ k]) (simp add: value_iteration_fst)
qed

lemma dp_prediction_is_table:
  "dp_prediction \<gamma> \<theta> = Some V \<Longrightarrow> \<exists>k. 1 \<le> k \<and> V = dp_tables \<gamma> k"
  using dp_loop_sweeps[of \<gamma> \<theta> initialize_grid V] by (simp add: dp_prediction_def dp_tables_def)

text \<open>With a threshold that is not positive, \<^verbatim>\<open>value_iteration\<close> leaves its loop through the
  iteration cap alone.\<close>

lemma vi_loop_cap:
  "\<theta> \<le> 0 \<Longrightarrow> fst (snd (vi_loop \<gamma> \<theta> max_iters V iterations out)) = max (iterations + 1) max_iters"
proof (induction \<gamma> \<theta> max_iters V iterations out rule: vi_loop.induct)
  case (1 \<gamma> \<theta> max_iters V iterations out)
  obtain new_V delta where sw: "vi_sweep \<gamma> V = (new_V, delta)" by (cases "vi_sweep \<gamma> V")
  have d: "\<not> delta < \<theta>" using vi_sweep_delta_nonneg[of \<gamma> V] sw "1.prems" by simp
  define out1 where "out1 = (if (iterations + 1) mod 10 = 0
                    then out @ [Progress (iterations + 1) delta] else out)"
  show ?case
  proof (cases "iterations + 1 \<ge> max_iters")
    case True
    with sw show ?thesis
      by (simp add: vi_loop.simps[of \<gamma> \<theta> max_iters V iterations out] Let_def)
  next
    case False
    with d have no_exit: "\<not> (delta < \<theta> \<or> iterations + 1 \<ge> max_iters)" by simp
    from "1.IH"[OF sw[symmetric] out1_def no_exit "1.prems"] False sw d
    show ?thesis
      by (simp add: vi_loop.simps[of \<gamma> \<theta> max_iters V iterations out] Let_def out1_def)
  qed
qed

section \<open>Tables of the TD(0) estimator\<close>

lemma td_reachable_shape_terminal:
  "td_reachable \<alpha> \<gamma> V \<Longrightarrow> grid_shape V \<and> grid_get V (0, 0) = 0"
proof (induction rule: td_reachable.induct)
  case start
  show ?case by (simp add: grid_shape_init terminal_init)
next
  case (update V s a)
  then show ?case by (simp add: td_update_terminal)
qed

lemma td_reachable_nonpos:
  assumes "0 \<le> \<alpha>" "\<alpha> \<le> 1" "0 \<le> \<gamma>"
  shows "td_reachable \<alpha> \<gamma> V \<Longrightarrow> grid_shape V \<and> all_nonpos V"
proof (induction rule: td_reachable.induct)
  case start
  show ?case by (simp add: grid_shape_init all_nonpos_init)
next
  case (update V s a)
  then show ?case by (simp add: td_update_nonpos[OF assms])
qed

lemma td_prediction_reachable:
  assumes "draws_ok rnd" "td_prediction \<alpha> \<gamma> episodes rnd = Some V"
  shows "td_reachable \<alpha> \<gamma> V"
  by (rule td_prediction_invariant[of "td_reachable \<alpha> \<gamma>", OF _ _ assms])
     (auto intro: td_reachable.intros)

lemma td_prediction_example:
  "td_prediction ALPHA GAMMA_TD 2 [0, 1, 2, 1, 1, 0, 2]
     = Some [[0, - (19 / 100), 0, 0], [0, - (109 / 1000), 0, 0], [0, 0, 0, 0], [0, 0, 0, 0]]"
  by (simp add: td_prediction_def upto_rec1 td_episode.simps td_update_def get_next_state_def
      initialize_grid_eval grid_get_def grid_set_def GRID_SIZE_def ALPHA_def GAMMA_TD_def Let_def)

lemma draws_ok_example: "draws_ok [0, 1, 2, 1, 1, 0, 2]"
  by (simp add: draws_ok_def)

section \<open>Policy evaluation on the notebook's configuration\<close>

lemma cells_in_grid: "in_grid s \<Longrightarrow> s \<in> set cells"
proof -
  assume "in_grid s"
  then have "fst s \<in> {0, 1, 2, 3}" "snd s \<in> {0, 1, 2, 3}"
    by (auto simp: in_grid_def GRID_SIZE_def)
  then show ?thesis by (cases s) (auto simp: cells_eval)
qed

lemma dp_int_prediction_monotone:
  "case dp_int_prediction 100 of None \<Rightarrow> False | Some (Q, N) \<Rightarrow> int_monotone N"
  by (simp add: dp_int_prediction_def GRID_SIZE_def eval_nat_numeral(2,3) 
      dp_int_loop_numeral dp_int_loop_1 dp_int_sweep_unrolled Let_def
      int_monotone_def cells_eval manhattan_def int_get_def
      cong: prod.case_cong_weak let_weak_cong option.case_cong_weak)

lemma dp_prediction_converges:
  "\<exists>Q N. 0 < Q \<and> int_shape N \<and> int_monotone N \<and> dp_prediction GAMMA_DP THETA = Some (to_grid Q N)"
proof -
  from dp_int_prediction_monotone obtain Q N where
    run: "dp_int_loop 100 1 (replicate (nat GRID_SIZE) (replicate (nat GRID_SIZE) 0)) = Some (Q, N)"
    and mono: "int_monotone N"
    by (auto simp: dp_int_prediction_def split: option.splits)
  have shape: "int_shape (replicate (nat GRID_SIZE) (replicate (nat GRID_SIZE) 0))"
    by (simp add: int_shape_def list_all_iff)
  have zero: "to_grid 1 (replicate (nat GRID_SIZE) (replicate (nat GRID_SIZE) 0)) = initialize_grid"
    by (simp add: to_grid_def initialize_grid_def)
  from dp_int_loop_refines[OF run _ shape] zero mono show ?thesis
    by (auto simp: dp_prediction_def GAMMA_DP_def THETA_def)
qed

lemma to_grid_monotone:
  assumes "0 < Q" "int_shape N" "int_monotone N" "in_grid s1" "in_grid s2"
    "manhattan s1 < manhattan s2"
  shows "grid_get (to_grid Q N) s2 < grid_get (to_grid Q N) s1"
proof -
  have "int_get N s2 < int_get N s1"
    using assms(3,6) cells_in_grid[OF assms(4)] cells_in_grid[OF assms(5)]
    by (auto simp: int_monotone_def list_all_iff)
  then show ?thesis
    using assms(1) by (simp add: grid_get_to_grid[OF assms(2)] assms(4,5) divide_strict_right_mono)
qed

section \<open>Invariants of the value tables\<close>

text \<open>
  C3. The value of the terminal state \<open>(0, 0)\<close> is \<open>0\<close> at every point of every solve: in
  the table after any number \<open>n\<close> of sweeps of \<^verbatim>\<open>value_iteration\<close> and of \<^verbatim>\<open>dp_prediction\<close>,
  in the tables they return, in every table \<^verbatim>\<open>td_prediction\<close> can hold after any number of
  TD(0) updates, and in the table it returns, for every configuration.
\<close>

theorem terminal_value_stays_zero:
  "grid_get (vi_tables \<gamma> n) (0, 0) = 0
   \<and> grid_get (value_iteration \<gamma> \<theta> max_iters) (0, 0) = 0
   \<and> grid_get (dp_tables \<gamma> n) (0, 0) = 0
   \<and> (\<forall>V. dp_prediction \<gamma> \<theta> = Some V \<longrightarrow> grid_get V (0, 0) = 0)
   \<and> (\<forall>V. td_reachable \<alpha> \<gamma> V \<longrightarrow> grid_get V (0, 0) = 0)
   \<and> (\<forall>V. draws_ok rnd \<and> td_prediction \<alpha> \<gamma> episodes rnd = Some V
          \<longrightarrow> td_reachable \<alpha> \<gamma> V \<and> grid_get V (0, 0) = 0)"
proof (intro conjI allI impI)
  show "grid_get (vi_tables \<gamma> n) (0, 0) = 0" by (rule vi_tables_terminal)
  show "grid_get (value_iteration \<gamma> \<theta> max_iters) (0, 0) = 0"
    using value_iteration_is_table[of \<gamma> \<theta> max_iters] by (auto simp: vi_tables_terminal)
  show "grid_get (dp_tables \<gamma> n) (0, 0) = 0" by (rule dp_tables_terminal)
  show "grid_get V (0, 0) = 0" if "dp_prediction \<gamma> \<theta> = Some V" for V
    using dp_prediction_is_table[OF that] by (auto simp: dp_tables_terminal)
  show "grid_get V (0, 0) = 0" if "td_reachable \<alpha> \<gamma> V" for V
    using td_reachable_shape_terminal[OF that] by simp
  show "td_reachable \<alpha> \<gamma> V"
    if "draws_ok rnd \<and> td_prediction \<alpha> \<gamma> episodes rnd = Some V" for V
    using that td_prediction_reachable[of rnd \<alpha> \<gamma> episodes V] by blast
  show "grid_get V (0, 0) = 0"
    if "draws_ok rnd \<and> td_prediction \<alpha> \<gamma> episodes rnd = Some V" for V
    using that td_prediction_reachable[of rnd \<alpha> \<gamma> episodes V]
      td_reachable_shape_terminal[of \<alpha> \<gamma> V] by blast
qed

theorem terminal_value_stays_zero_witness:
  "(\<exists>V. dp_prediction GAMMA_DP THETA = Some V \<and> grid_get V (0, 0) = 0)
   \<and> draws_ok [0, 1, 2, 1, 1, 0, 2]
   \<and> td_prediction ALPHA GAMMA_TD 2 [0, 1, 2, 1, 1, 0, 2]
       = Some [[0, - (19 / 100), 0, 0], [0, - (109 / 1000), 0, 0], [0, 0, 0, 0], [0, 0, 0, 0]]
   \<and> td_reachable ALPHA GAMMA_TD
       [[0, - (19 / 100), 0, 0], [0, - (109 / 1000), 0, 0], [0, 0, 0, 0], [0, 0, 0, 0]]
   \<and> grid_get [[0, - (19 / 100), 0, 0], [0, - (109 / 1000), 0, 0], [0, 0, 0, 0], [0, 0, 0, 0]]
        (0, 0) = 0"
proof -
  from dp_prediction_converges obtain Q N where
    dp: "dp_prediction GAMMA_DP THETA = Some (to_grid Q N)" by auto
  have td: "draws_ok [0, 1, 2, 1, 1, 0, 2]
      \<and> td_prediction ALPHA GAMMA_DP 2 [0, 1, 2, 1, 1, 0, 2]
          = Some [[0, - (19 / 100), 0, 0], [0, - (109 / 1000), 0, 0], [0, 0, 0, 0], [0, 0, 0, 0]]"
    using td_prediction_example draws_ok_example by (simp add: GAMMA_DP_def GAMMA_TD_def)
  from terminal_value_stays_zero[of GAMMA_DP 0 THETA 0 ALPHA "[0, 1, 2, 1, 1, 0, 2]" 2] dp td
  show ?thesis by (auto simp: GAMMA_DP_def GAMMA_TD_def)
qed

text \<open>
  C10. With \<open>0 \<le> \<gamma> \<le> 1\<close> and \<open>0 < \<alpha> \<le> 1\<close>, every entry of the value table is at most
  \<open>0\<close> at every point of every solve: in the table after any number \<open>n\<close> of sweeps of
  \<^verbatim>\<open>value_iteration\<close> and of \<^verbatim>\<open>dp_prediction\<close>, in the tables they return, in every table
  \<^verbatim>\<open>td_prediction\<close> can hold after any number of TD(0) updates, and in the table it returns.
\<close>

theorem values_never_positive:
  assumes "0 \<le> \<gamma>" "\<gamma> \<le> 1" "0 < \<alpha>" "\<alpha> \<le> 1"
  shows "all_nonpos (vi_tables \<gamma> n)
       \<and> all_nonpos (value_iteration \<gamma> \<theta> max_iters)
       \<and> all_nonpos (dp_tables \<gamma> n)
       \<and> (\<forall>V. dp_prediction \<gamma> \<theta> = Some V \<longrightarrow> all_nonpos V)
       \<and> (\<forall>V. td_reachable \<alpha> \<gamma> V \<longrightarrow> all_nonpos V)
       \<and> (\<forall>V. draws_ok rnd \<and> td_prediction \<alpha> \<gamma> episodes rnd = Some V \<longrightarrow> all_nonpos V)"
proof (intro conjI allI impI)
  have a: "0 \<le> \<alpha>" using assms(3) by simp
  show "all_nonpos (vi_tables \<gamma> n)" by (rule vi_tables_nonpos[OF assms(1)])
  show "all_nonpos (value_iteration \<gamma> \<theta> max_iters)"
    using value_iteration_is_table[of \<gamma> \<theta> max_iters] by (auto simp: vi_tables_nonpos[OF assms(1)])
  show "all_nonpos (dp_tables \<gamma> n)" by (rule dp_tables_nonpos[OF assms(1)])
  show "all_nonpos V" if "dp_prediction \<gamma> \<theta> = Some V" for V
    using dp_prediction_is_table[OF that] by (auto simp: dp_tables_nonpos[OF assms(1)])
  show r: "all_nonpos V" if "td_reachable \<alpha> \<gamma> V" for V
    using td_reachable_nonpos[OF a assms(4,1) that] by simp
  show "all_nonpos V" if "draws_ok rnd \<and> td_prediction \<alpha> \<gamma> episodes rnd = Some V" for V
    using that td_prediction_reachable[of rnd \<alpha> \<gamma> episodes V] r[of V] by blast
qed

theorem values_never_positive_witness:
  "(0::real) \<le> 9 / 10 \<and> (9::real) / 10 \<le> 1 \<and> (0::real) < 1 / 10 \<and> (1::real) / 10 \<le> 1
   \<and> (\<exists>V. dp_prediction GAMMA_DP THETA = Some V \<and> all_nonpos V)
   \<and> draws_ok [0, 1, 2, 1, 1, 0, 2]
   \<and> td_prediction ALPHA GAMMA_TD 2 [0, 1, 2, 1, 1, 0, 2]
       = Some [[0, - (19 / 100), 0, 0], [0, - (109 / 1000), 0, 0], [0, 0, 0, 0], [0, 0, 0, 0]]
   \<and> all_nonpos [[0, - (19 / 100), 0, 0], [0, - (109 / 1000), 0, 0], [0, 0, 0, 0], [0, 0, 0, 0]]"
proof -
  from dp_prediction_converges obtain Q N where
    dp: "dp_prediction (9 / 10) THETA = Some (to_grid Q N)" by (auto simp: GAMMA_DP_def)
  have td: "draws_ok [0, 1, 2, 1, 1, 0, 2]
      \<and> td_prediction (1 / 10) (9 / 10) 2 [0, 1, 2, 1, 1, 0, 2]
          = Some [[0, - (19 / 100), 0, 0], [0, - (109 / 1000), 0, 0], [0, 0, 0, 0], [0, 0, 0, 0]]"
    using td_prediction_example draws_ok_example by (simp add: ALPHA_def GAMMA_TD_def)
  have h: "(0::real) \<le> 9 / 10" "(9::real) / 10 \<le> 1" "(0::real) < 1 / 10" "(1::real) / 10 \<le> 1"
    by simp_all
  from values_never_positive[OF h, of 0 THETA 0 "[0, 1, 2, 1, 1, 0, 2]" 2] dp td
  show ?thesis by (auto simp: GAMMA_DP_def GAMMA_TD_def ALPHA_def)
qed

section \<open>Termination of the Bellman solvers\<close>

lemma vi_loop_iterations:
  "\<exists>k. 1 \<le> k \<and> fst (snd (vi_loop \<gamma> \<theta> max_iters initialize_grid 0 [])) = int k
       \<and> value_iteration \<gamma> \<theta> max_iters = vi_tables \<gamma> k \<and> int k \<le> max 1 max_iters"
proof -
  from vi_loop_result[of \<gamma> \<theta> max_iters "[]"] obtain k where
    k: "1 \<le> k" "int k \<le> max 1 max_iters"
    and r: "vi_loop \<gamma> \<theta> max_iters initialize_grid 0 []
          = (vi_tables \<gamma> k, int k, snd (snd (vi_loop \<gamma> \<theta> max_iters initialize_grid 0 [])))"
    by blast
  have "fst (snd (vi_loop \<gamma> \<theta> max_iters initialize_grid 0 [])) = int k"
    by (subst r) simp
  moreover have "value_iteration \<gamma> \<theta> max_iters = vi_tables \<gamma> k"
    unfolding value_iteration_fst by (subst r) simp
  ultimately show ?thesis using k by blast
qed

lemma dp_prediction_threshold_zero: "dp_prediction GAMMA_DP 0 = None"
  by (simp add: dp_prediction_def dp_loop_nonterminating)

lemma vi_loop_cap_zero: "fst (snd (vi_loop GAMMA_VI 0 0 initialize_grid 0 [])) = 1"
  using vi_loop_cap[of 0 GAMMA_VI 0 initialize_grid 0 "[]"] by simp

text \<open>
  C4, as the claim states it, fails: \<^verbatim>\<open>dp_prediction\<close> has no iteration cap, and with the
  threshold \<open>0\<close> it never returns; \<^verbatim>\<open>value_iteration\<close> with the cap \<open>0\<close> performs one
  sweep, which is more than its cap.
\<close>

theorem solvers_capped_counterexample:
  "dp_prediction GAMMA_DP 0 = None
   \<and> fst (snd (vi_loop GAMMA_VI 0 0 initialize_grid 0 [])) = 1"
  using dp_prediction_threshold_zero vi_loop_cap_zero by simp

text \<open>
  C4, amended. \<^verbatim>\<open>value_iteration\<close> always returns: it performs at least one sweep and at
  most \<open>max 1 max_iters\<close> sweeps, and returns the table of its last sweep; for every threshold
  \<open>\<theta> \<le> 0\<close> it performs exactly \<open>max 1 max_iters\<close> sweeps. \<^verbatim>\<open>dp_prediction\<close> has no iteration
  cap: for every threshold \<open>\<theta> \<le> 0\<close> it never returns.
\<close>

theorem value_iteration_capped_dp_prediction_uncapped:
  "(\<exists>k. 1 \<le> k \<and> int k \<le> max 1 max_iters
        \<and> fst (snd (vi_loop \<gamma> \<theta> max_iters initialize_grid 0 [])) = int k
        \<and> value_iteration \<gamma> \<theta> max_iters = vi_tables \<gamma> k)
   \<and> (\<theta> \<le> 0 \<longrightarrow> fst (snd (vi_loop \<gamma> \<theta> max_iters initialize_grid 0 [])) = max 1 max_iters)
   \<and> (\<theta> \<le> 0 \<longrightarrow> dp_prediction \<gamma> \<theta> = None)"
proof (intro conjI impI)
  show "\<exists>k. 1 \<le> k \<and> int k \<le> max 1 max_iters
        \<and> fst (snd (vi_loop \<gamma> \<theta> max_iters initialize_grid 0 [])) = int k
        \<and> value_iteration \<gamma> \<theta> max_iters = vi_tables \<gamma> k"
    using vi_loop_iterations[of \<gamma> \<theta> max_iters] by blast
  show "fst (snd (vi_loop \<gamma> \<theta> max_iters initialize_grid 0 [])) = max 1 max_iters" if "\<theta> \<le> 0"
    using vi_loop_cap[OF that, of \<gamma> max_iters initialize_grid 0 "[]"] by simp
  show "dp_prediction \<gamma> \<theta> = None" if "\<theta> \<le> 0"
    using that by (simp add: dp_prediction_def dp_loop_nonterminating)
qed

theorem value_iteration_capped_dp_prediction_uncapped_witness:
  "(0::real) \<le> 0
   \<and> fst (snd (vi_loop GAMMA_VI 0 1000 initialize_grid 0 [])) = 1000
   \<and> value_iteration GAMMA_VI 0 1000 = vi_tables GAMMA_VI 1000
   \<and> dp_prediction GAMMA_DP 0 = None"
proof -
  from value_iteration_capped_dp_prediction_uncapped[of 1000 GAMMA_VI 0]
  have "fst (snd (vi_loop GAMMA_VI 0 1000 initialize_grid 0 [])) = 1000"
    and "\<exists>k. fst (snd (vi_loop GAMMA_VI 0 1000 initialize_grid 0 [])) = int k
          \<and> value_iteration GAMMA_VI 0 1000 = vi_tables GAMMA_VI k"
    by auto
  then have "value_iteration GAMMA_VI 0 1000 = vi_tables GAMMA_VI 1000"
    by (metis nat_int nat_numeral)
  moreover from value_iteration_capped_dp_prediction_uncapped[of 1000 GAMMA_DP 0]
  have "dp_prediction GAMMA_DP 0 = None" by simp
  ultimately show ?thesis
    using \<open>fst (snd (vi_loop GAMMA_VI 0 1000 initialize_grid 0 [])) = 1000\<close> by simp
qed

section \<open>What a solve hands back\<close>

lemma td_reachable_shape: "td_reachable \<alpha> \<gamma> V \<Longrightarrow> grid_shape V"
  using td_reachable_shape_terminal by blast

lemma td_prediction_no_episode: "episodes \<le> 0 \<Longrightarrow> td_prediction \<alpha> \<gamma> episodes rnd = Some initialize_grid"
  by (simp add: td_prediction_def)

lemma td_prediction_terminal_start:
  "td_prediction ALPHA GAMMA_TD 1 [0, 0] = Some initialize_grid"
  by (simp add: td_prediction_def upto_rec1 td_episode.simps)

text \<open>
  C5, as the claim states it, fails: the value \<^verbatim>\<open>value_iteration\<close> returns is the table alone.
  With the cap 6 the loop performs 6 sweeps and with the cap 7 it performs 7, and the two
  calls return the same value.
\<close>

theorem returns_count_counterexample:
  "fst (snd (vi_loop GAMMA_VI THETA 6 initialize_grid 0 [])) = 6
   \<and> fst (snd (vi_loop GAMMA_VI THETA 7 initialize_grid 0 [])) = 7
   \<and> value_iteration GAMMA_VI THETA 6 = value_iteration GAMMA_VI THETA 7"
  using vi_loop_cap_6 vi_loop_converges[of 7]
  by (simp add: value_iteration_fst GAMMA_VI_def THETA_def)

text \<open>
  C5, amended. Every solve returns the 4 x 4 value table and nothing else.
  \<^verbatim>\<open>value_iteration\<close> prints the number of sweeps it performed, as the last line of its
  output: that number is at least 1 and the returned table is the table after that many
  sweeps. \<^verbatim>\<open>dp_prediction\<close> returns the table after the sweeps it performed (at least one) and
  \<^verbatim>\<open>td_prediction\<close> the table after its episodes; neither keeps or reports a count.
\<close>

theorem solves_return_table_only:
  "(\<exists>k out. 1 \<le> k
        \<and> value_iteration_run \<gamma> \<theta> max_iters = (out @ [Completed (int k)], vi_tables \<gamma> k)
        \<and> value_iteration \<gamma> \<theta> max_iters = vi_tables \<gamma> k
        \<and> grid_shape (vi_tables \<gamma> k))
   \<and> (\<forall>V. dp_prediction \<gamma> \<theta> = Some V \<longrightarrow> grid_shape V \<and> (\<exists>k. 1 \<le> k \<and> V = dp_tables \<gamma> k))
   \<and> (\<forall>V. draws_ok rnd \<and> td_prediction \<alpha> \<gamma> episodes rnd = Some V \<longrightarrow> grid_shape V)"
proof (intro conjI allI impI)
  from vi_loop_result[of \<gamma> \<theta> max_iters "[]"] obtain k where
    k: "1 \<le> k"
    and r: "vi_loop \<gamma> \<theta> max_iters initialize_grid 0 []
          = (vi_tables \<gamma> k, int k, snd (snd (vi_loop \<gamma> \<theta> max_iters initialize_grid 0 [])))"
    by blast
  define out where "out = snd (snd (vi_loop \<gamma> \<theta> max_iters initialize_grid 0 []))"
  have run: "value_iteration_run \<gamma> \<theta> max_iters = (out @ [Completed (int k)], vi_tables \<gamma> k)"
    unfolding value_iteration_run_def out_def by (subst r) simp
  then have "value_iteration \<gamma> \<theta> max_iters = vi_tables \<gamma> k"
    by (simp add: value_iteration_def)
  with k run show "\<exists>k out. 1 \<le> k
        \<and> value_iteration_run \<gamma> \<theta> max_iters = (out @ [Completed (int k)], vi_tables \<gamma> k)
        \<and> value_iteration \<gamma> \<theta> max_iters = vi_tables \<gamma> k
        \<and> grid_shape (vi_tables \<gamma> k)"
    using vi_tables_shape[of \<gamma> k] by blast
next
  fix V assume dp: "dp_prediction \<gamma> \<theta> = Some V"
  from dp_prediction_is_table[OF dp] show "\<exists>k. 1 \<le> k \<and> V = dp_tables \<gamma> k" .
  then show "grid_shape V" using dp_tables_shape by blast
next
  fix V assume "draws_ok rnd \<and> td_prediction \<alpha> \<gamma> episodes rnd = Some V"
  then have "td_reachable \<alpha> \<gamma> V" using td_prediction_reachable[of rnd \<alpha> \<gamma> episodes V] by blast
  then show "grid_shape V" by (rule td_reachable_shape)
qed

theorem solves_return_table_only_witness:
  "value_iteration_run GAMMA_VI THETA 1000 = ([] @ [Completed (int 7)], vi_tables GAMMA_VI 7)
   \<and> (\<exists>V k. dp_prediction GAMMA_DP THETA = Some V \<and> grid_shape V \<and> 1 \<le> k \<and> V = dp_tables GAMMA_DP k)
   \<and> draws_ok [0, 1, 2, 1, 1, 0, 2]
   \<and> td_prediction ALPHA GAMMA_TD 2 [0, 1, 2, 1, 1, 0, 2]
       = Some [[0, - (19 / 100), 0, 0], [0, - (109 / 1000), 0, 0], [0, 0, 0, 0], [0, 0, 0, 0]]
   \<and> grid_shape [[0, - (19 / 100), 0, 0], [0, - (109 / 1000), 0, 0], [0, 0, 0, 0], [0, 0, 0, 0]]"
proof -
  have run: "value_iteration_run GAMMA_VI THETA 1000
      = ([Completed 7],
         [[0, - 1, - 2, - 3], [- 1, - 2, - 3, - 4], [- 2, - 3, - 4, - 5], [- 3, - 4, - 5, - 6]])"
    using vi_loop_converges[of 1000]
    by (simp add: value_iteration_run_def GAMMA_VI_def THETA_def)
  from solves_return_table_only[of GAMMA_VI THETA 1000] obtain k out where
    "value_iteration_run GAMMA_VI THETA 1000 = (out @ [Completed (int k)], vi_tables GAMMA_VI k)"
    by blast
  with run have vi: "value_iteration_run GAMMA_VI THETA 1000
      = ([] @ [Completed (int 7)], vi_tables GAMMA_VI 7)"
    by auto
  from dp_prediction_converges obtain Q N where
    dp: "dp_prediction GAMMA_DP THETA = Some (to_grid Q N)" by auto
  from solves_return_table_only[of GAMMA_DP THETA 0 "[0, 1, 2, 1, 1, 0, 2]" ALPHA 2] dp
  have dp': "\<exists>V k. dp_prediction GAMMA_DP THETA = Some V \<and> grid_shape V \<and> 1 \<le> k \<and> V = dp_tables GAMMA_DP k"
    by auto
  have td: "td_prediction ALPHA GAMMA_TD 2 [0, 1, 2, 1, 1, 0, 2]
      = Some [[0, - (19 / 100), 0, 0], [0, - (109 / 1000), 0, 0], [0, 0, 0, 0], [0, 0, 0, 0]]"
    by (rule td_prediction_example)
  from solves_return_table_only[of GAMMA_TD THETA 0 "[0, 1, 2, 1, 1, 0, 2]" ALPHA 2] td draws_ok_example
  have "grid_shape [[0, - (19 / 100), 0, 0], [0, - (109 / 1000), 0, 0], [0, 0, 0, 0], [0, 0, 0, 0]]"
    by blast
  with vi dp' td draws_ok_example show ?thesis by blast
qed

section \<open>Configurations outside the documented ranges\<close>

lemma vi_sweep_gamma_2: "vi_sweep 2 [[0,0,0,0],[0,0,0,0],[0,0,0,0],[0,0,0,0]]
    = ([[0,-1,-1,-1],[-1,-1,-1,-1],[-1,-1,-1,-1],[-1,-1,-1,-1]], 1)"
  by (simp add: vi_eval)

lemma value_iteration_gamma_2:
  "value_iteration 2 THETA 1
     = [[0, - 1, - 1, - 1], [- 1, - 1, - 1, - 1], [- 1, - 1, - 1, - 1], [- 1, - 1, - 1, - 1]]"
  by (simp add: value_iteration_fst initialize_grid_eval vi_loop.simps vi_sweep_gamma_2 THETA_def)

section \<open>The solvers at a grid size given as an argument\<close>

lemma cells_n_grid_size: "cells_n GRID_SIZE = cells"
  by (simp add: cells_n_def cells_def)

lemma zero_grid_grid_size: "zero_grid GRID_SIZE = initialize_grid"
  by (simp add: zero_grid_def initialize_grid_def)

lemma initialize_grid_n_nonneg: "0 \<le> N \<Longrightarrow> initialize_grid_n N = Inr (zero_grid N)"
  by (simp add: initialize_grid_n_def np_zeros_def zero_grid_def)

lemma initialize_grid_n_negative: "N < 0 \<Longrightarrow> initialize_grid_n N = Inl ValueError"
  by (simp add: initialize_grid_n_def np_zeros_def)

lemma get_next_states_n_grid_size: "get_next_states_n GRID_SIZE = get_next_states"
  by (simp add: fun_eq_iff get_next_states_n_def get_next_states_def)

lemma initialize_grid_n_grid_size: "initialize_grid_n GRID_SIZE = Inr initialize_grid"
  by (simp add: initialize_grid_n_def np_zeros_def initialize_grid_def GRID_SIZE_def)

lemma vi_action_value_n_grid_size:
  "vi_action_value_n GRID_SIZE \<gamma> V s = vi_action_value \<gamma> V s"
  by (simp add: fun_eq_iff vi_action_value_n_def vi_action_value_def)

lemma vi_cell_n_grid_size: "vi_cell_n GRID_SIZE \<gamma> V = vi_cell \<gamma> V"
  by (simp add: fun_eq_iff vi_cell_n_def vi_cell_def vi_action_value_n_grid_size)

lemma vi_sweep_n_grid_size: "vi_sweep_n GRID_SIZE \<gamma> V = vi_sweep \<gamma> V"
  by (simp add: vi_sweep_n_def vi_sweep_def cells_n_grid_size vi_cell_n_grid_size)

lemma vi_loop_n_grid_size:
  "vi_loop_n GRID_SIZE \<gamma> \<theta> max_iters V iterations out = vi_loop \<gamma> \<theta> max_iters V iterations out"
proof (induction \<gamma> \<theta> max_iters V iterations out rule: vi_loop.induct)
  case (1 \<gamma> \<theta> max_iters V iterations out)
  obtain new_V delta where sw: "vi_sweep \<gamma> V = (new_V, delta)" by (cases "vi_sweep \<gamma> V")
  define out1 where "out1 = (if (iterations + 1) mod 10 = 0
                    then out @ [Progress (iterations + 1) delta] else out)"
  show ?case
  proof (cases "delta < \<theta> \<or> iterations + 1 \<ge> max_iters")
    case True
    with sw show ?thesis
      by (simp add: vi_loop.simps[of \<gamma> \<theta> max_iters V iterations out]
          vi_loop_n.simps[of GRID_SIZE \<gamma> \<theta> max_iters V iterations out] vi_sweep_n_grid_size Let_def)
  next
    case False
    from "1.IH"[OF sw[symmetric] out1_def False] False sw show ?thesis
      by (simp add: vi_loop.simps[of \<gamma> \<theta> max_iters V iterations out]
          vi_loop_n.simps[of GRID_SIZE \<gamma> \<theta> max_iters V iterations out] vi_sweep_n_grid_size Let_def
          out1_def)
  qed
qed

lemma value_iteration_n_grid_size:
  "value_iteration_n GRID_SIZE \<gamma> \<theta> max_iters = Inr (value_iteration \<gamma> \<theta> max_iters)"
  by (simp add: value_iteration_n_def initialize_grid_n_grid_size vi_loop_n_grid_size
      value_iteration_fst)

lemma vi_loop_n_sweeps:
  "vi_loop_n N \<gamma> \<theta> max_iters V iterations out = (V', iterations', out') \<Longrightarrow>
   \<exists>k. 1 \<le> k \<and> iterations' = iterations + int k
       \<and> V' = ((\<lambda>V. fst (vi_sweep_n N \<gamma> V)) ^^ k) V
       \<and> iterations' \<le> max (iterations + 1) max_iters"
proof (induction N \<gamma> \<theta> max_iters V iterations out rule: vi_loop_n.induct)
  case (1 N \<gamma> \<theta> max_iters V iterations out)
  obtain new_V delta where sw: "vi_sweep_n N \<gamma> V = (new_V, delta)" by (cases "vi_sweep_n N \<gamma> V")
  define out1 where "out1 = (if (iterations + 1) mod 10 = 0
                    then out @ [Progress (iterations + 1) delta] else out)"
  show ?case
  proof (cases "delta < \<theta> \<or> iterations + 1 \<ge> max_iters")
    case True
    with "1.prems" sw have "V' = new_V" "iterations' = iterations + 1"
      by (simp_all add: vi_loop_n.simps[of N \<gamma> \<theta> max_iters V iterations out] Let_def)
    with sw show ?thesis by (intro exI[of _ 1]) simp
  next
    case False
    with "1.prems" sw have rec:
      "vi_loop_n N \<gamma> \<theta> max_iters new_V (iterations + 1) out1 = (V', iterations', out')"
      by (simp add: vi_loop_n.simps[of N \<gamma> \<theta> max_iters V iterations out] Let_def out1_def)
    from "1.IH"[OF sw[symmetric] out1_def False rec]
    obtain k where k: "1 \<le> k" "iterations' = iterations + 1 + int k"
      "V' = ((\<lambda>V. fst (vi_sweep_n N \<gamma> V)) ^^ k) new_V"
      "iterations' \<le> max (iterations + 1 + 1) max_iters"
      by auto
    show ?thesis
      using k sw False
      by (intro exI[of _ "Suc k"]) (simp add: funpow_Suc_right del: funpow.simps)
  qed
qed

lemma value_iteration_n_returns:
  assumes "0 \<le> N"
  shows "\<exists>k. 1 \<le> k \<and> int k \<le> max 1 max_iters
           \<and> value_iteration_n N \<gamma> \<theta> max_iters = Inr (vi_tables_n N \<gamma> k)"
proof -
  obtain V' it' out' where r: "vi_loop_n N \<gamma> \<theta> max_iters (zero_grid N) 0 [] = (V', it', out')"
    by (cases "vi_loop_n N \<gamma> \<theta> max_iters (zero_grid N) 0 []")
  from vi_loop_n_sweeps[OF r] obtain k where
    "1 \<le> k" "it' = int k" "V' = vi_tables_n N \<gamma> k" "it' \<le> max 1 max_iters"
    by (auto simp: vi_tables_n_def)
  with r show ?thesis
    by (intro exI[of _ k]) (simp add: value_iteration_n_def initialize_grid_n_nonneg[OF assms])
qed

lemma dp_value_sum_n_grid_size: "dp_value_sum_n GRID_SIZE \<gamma> V s = dp_value_sum \<gamma> V s"
  by (simp add: dp_value_sum_n_def dp_value_sum_def get_next_states_n_grid_size)

lemma dp_cell_n_grid_size: "dp_cell_n GRID_SIZE \<gamma> V = dp_cell \<gamma> V"
  by (simp add: fun_eq_iff dp_cell_n_def dp_cell_def dp_value_sum_n_grid_size)

lemma dp_sweep_n_grid_size: "dp_sweep_n GRID_SIZE \<gamma> V = dp_sweep \<gamma> V"
  by (simp add: dp_sweep_n_def dp_sweep_def cells_n_grid_size dp_cell_n_grid_size)

lemma dp_loop_n_sweeps:
  assumes "dp_loop_n N \<gamma> \<theta> V = Some V'"
  shows "\<exists>k. 1 \<le> k \<and> V' = ((\<lambda>V. fst (dp_sweep_n N \<gamma> V)) ^^ k) V"
proof (rule dp_loop_n.raw_induct
    [where P = "\<lambda>N \<gamma> \<theta> V V'. \<exists>k. 1 \<le> k \<and> V' = ((\<lambda>V. fst (dp_sweep_n N \<gamma> V)) ^^ k) V", OF _ assms])
  fix f N \<gamma> \<theta> V V'
  assume IH: "\<And>N \<gamma> \<theta> V V'. f N \<gamma> \<theta> V = Some V'
      \<Longrightarrow> \<exists>k. 1 \<le> k \<and> V' = ((\<lambda>V. fst (dp_sweep_n N \<gamma> V)) ^^ k) V"
    and body: "(case dp_sweep_n N \<gamma> V of
                  (new_V, delta) \<Rightarrow> if delta < \<theta> then Some new_V else f N \<gamma> \<theta> new_V) = Some V'"
  obtain new_V delta where sw: "dp_sweep_n N \<gamma> V = (new_V, delta)" by (cases "dp_sweep_n N \<gamma> V")
  show "\<exists>k. 1 \<le> k \<and> V' = ((\<lambda>V. fst (dp_sweep_n N \<gamma> V)) ^^ k) V"
  proof (cases "delta < \<theta>")
    case True
    with body sw have "V' = new_V" by simp
    with sw show ?thesis by (intro exI[of _ 1]) simp
  next
    case False
    with body sw have "f N \<gamma> \<theta> new_V = Some V'" by simp
    from IH[OF this] obtain k where "1 \<le> k" "V' = ((\<lambda>V. fst (dp_sweep_n N \<gamma> V)) ^^ k) new_V"
      by auto
    with sw show ?thesis
      by (intro exI[of _ "Suc k"]) (simp add: funpow_Suc_right del: funpow.simps)
  qed
qed

lemma dp_loop_n_le_dp_loop:
  assumes "dp_loop_n GRID_SIZE \<gamma> \<theta> V = Some V'"
  shows "dp_loop \<gamma> \<theta> V = Some V'"
proof -
  have "N = GRID_SIZE \<longrightarrow> dp_loop \<gamma> \<theta> V = Some V'" if "dp_loop_n N \<gamma> \<theta> V = Some V'" for N
  proof (rule dp_loop_n.raw_induct
      [where P = "\<lambda>N \<gamma> \<theta> V V'. N = GRID_SIZE \<longrightarrow> dp_loop \<gamma> \<theta> V = Some V'", OF _ that])
    fix f N \<gamma> \<theta> V V'
    assume IH: "\<And>N \<gamma> \<theta> V V'. f N \<gamma> \<theta> V = Some V' \<Longrightarrow> N = GRID_SIZE \<longrightarrow> dp_loop \<gamma> \<theta> V = Some V'"
      and body: "(case dp_sweep_n N \<gamma> V of
                  (new_V, delta) \<Rightarrow> if delta < \<theta> then Some new_V else f N \<gamma> \<theta> new_V) = Some V'"
    show "N = GRID_SIZE \<longrightarrow> dp_loop \<gamma> \<theta> V = Some V'"
    proof
      assume N: "N = GRID_SIZE"
      obtain new_V delta where sw: "dp_sweep \<gamma> V = (new_V, delta)" by (cases "dp_sweep \<gamma> V")
      show "dp_loop \<gamma> \<theta> V = Some V'"
      proof (cases "delta < \<theta>")
        case True
        with body sw N show ?thesis
          by (subst dp_loop.simps) (simp add: dp_sweep_n_grid_size)
      next
        case False
        with body sw N have "f N \<gamma> \<theta> new_V = Some V'" by (simp add: dp_sweep_n_grid_size)
        from IH[OF this] N have "dp_loop \<gamma> \<theta> new_V = Some V'" by simp
        with False sw show ?thesis by (subst dp_loop.simps) simp
      qed
    qed
  qed
  with assms show ?thesis by blast
qed

lemma dp_loop_le_dp_loop_n:
  assumes "dp_loop \<gamma> \<theta> V = Some V'"
  shows "dp_loop_n GRID_SIZE \<gamma> \<theta> V = Some V'"
proof (rule dp_loop.raw_induct
    [where P = "\<lambda>\<gamma> \<theta> V V'. dp_loop_n GRID_SIZE \<gamma> \<theta> V = Some V'", OF _ assms])
  fix f \<gamma> \<theta> V V'
  assume IH: "\<And>\<gamma> \<theta> V V'. f \<gamma> \<theta> V = Some V' \<Longrightarrow> dp_loop_n GRID_SIZE \<gamma> \<theta> V = Some V'"
    and body: "(case dp_sweep \<gamma> V of
                (new_V, delta) \<Rightarrow> if delta < \<theta> then Some new_V else f \<gamma> \<theta> new_V) = Some V'"
  obtain new_V delta where sw: "dp_sweep \<gamma> V = (new_V, delta)" by (cases "dp_sweep \<gamma> V")
  show "dp_loop_n GRID_SIZE \<gamma> \<theta> V = Some V'"
  proof (cases "delta < \<theta>")
    case True
    with body sw show ?thesis
      by (subst dp_loop_n.simps) (simp add: dp_sweep_n_grid_size)
  next
    case False
    with body sw have "f \<gamma> \<theta> new_V = Some V'" by simp
    from IH[OF this] False sw show ?thesis
      by (subst dp_loop_n.simps) (simp add: dp_sweep_n_grid_size)
  qed
qed

lemma dp_loop_n_grid_size: "dp_loop_n GRID_SIZE \<gamma> \<theta> V = dp_loop \<gamma> \<theta> V"
proof (cases "dp_loop \<gamma> \<theta> V")
  case None
  then show ?thesis
    using dp_loop_n_le_dp_loop[of \<gamma> \<theta> V] by (cases "dp_loop_n GRID_SIZE \<gamma> \<theta> V") auto
next
  case (Some V')
  then show ?thesis by (simp add: dp_loop_le_dp_loop_n)
qed

lemma dp_prediction_n_grid_size:
  "dp_prediction_n GRID_SIZE \<gamma> \<theta> = map_option Inr (dp_prediction \<gamma> \<theta>)"
  by (simp add: dp_prediction_n_def dp_prediction_def initialize_grid_n_grid_size
      dp_loop_n_grid_size)

lemma dp_prediction_n_returns:
  assumes "0 \<le> N"
  shows "dp_prediction_n N \<gamma> \<theta> = None
       \<or> (\<exists>k. 1 \<le> k \<and> dp_prediction_n N \<gamma> \<theta> = Some (Inr (dp_tables_n N \<gamma> k)))"
proof (cases "dp_loop_n N \<gamma> \<theta> (zero_grid N)")
  case None
  then show ?thesis by (simp add: dp_prediction_n_def initialize_grid_n_nonneg[OF assms])
next
  case (Some V')
  from dp_loop_n_sweeps[OF Some] obtain k where "1 \<le> k" "V' = dp_tables_n N \<gamma> k"
    by (auto simp: dp_tables_n_def)
  with Some show ?thesis
    by (intro disjI2 exI[of _ k]) (simp add: dp_prediction_n_def initialize_grid_n_nonneg[OF assms])
qed

lemma get_next_state_n_grid_size: "get_next_state_n GRID_SIZE s a = get_next_state s a"
  by (simp add: get_next_state_n_def get_next_state_def)

lemma td_update_n_grid_size: "td_update_n GRID_SIZE \<alpha> \<gamma> V s a = td_update \<alpha> \<gamma> V s a"
  by (simp add: td_update_n_def td_update_def get_next_state_n_grid_size)

lemma td_episode_n_grid_size:
  "td_episode_n GRID_SIZE \<alpha> \<gamma> V s rnd = td_episode \<alpha> \<gamma> V s rnd"
proof (induction rnd arbitrary: V s)
  case Nil
  show ?case
    by (simp add: td_episode.simps[of \<alpha> \<gamma> V s "[]"] td_episode_n.simps[of _ \<alpha> \<gamma> V s "[]"])
next
  case (Cons a rnd)
  obtain V' s' where up: "td_update \<alpha> \<gamma> V s a = (V', s')" by (cases "td_update \<alpha> \<gamma> V s a")
  from Cons.IH[of V' s'] up show ?case
    by (simp add: td_episode.simps[of \<alpha> \<gamma> V s "a # rnd"]
        td_episode_n.simps[of _ \<alpha> \<gamma> V s "a # rnd"] td_update_n_grid_size)
qed

lemma td_start_state_n_positive: "1 \<le> N \<Longrightarrow> td_start_state_n N rnd = map_option Inr (td_start_state rnd)"
  by (simp add: td_start_state_n_def)

lemma td_episodes_n_grid_size:
  "td_episodes_n GRID_SIZE \<alpha> \<gamma> es V rnd = map_option Inr (td_episodes \<alpha> \<gamma> es V rnd)"
proof (induction es arbitrary: V rnd)
  case Nil
  show ?case by simp
next
  case (Cons episode es)
  have start: "td_start_state_n GRID_SIZE rnd = map_option Inr (td_start_state rnd)"
    by (rule td_start_state_n_positive) (simp add: GRID_SIZE_def)
  show ?case
    by (simp add: start td_episode_n_grid_size Cons.IH split: option.splits)
qed

lemma td_prediction_n_grid_size:
  "td_prediction_n GRID_SIZE \<alpha> \<gamma> episodes rnd = map_option Inr (td_prediction \<alpha> \<gamma> episodes rnd)"
  by (simp add: td_prediction_n_def td_prediction_def initialize_grid_n_grid_size
      td_episodes_n_grid_size split: option.splits)

lemma td_episodes_n_no_error:
  "1 \<le> N \<Longrightarrow> td_episodes_n N \<alpha> \<gamma> es V rnd \<noteq> Some (Inl e)"
proof (induction es arbitrary: V rnd)
  case Nil
  show ?case by simp
next
  case (Cons episode es)
  show ?case
    using Cons.IH[OF Cons.prems]
    by (auto simp: td_start_state_n_positive[OF Cons.prems] split: option.splits sum.splits)
qed

lemma td_prediction_n_no_error:
  assumes "1 \<le> N"
  shows "td_prediction_n N \<alpha> \<gamma> episodes rnd = None
       \<or> (\<exists>V. td_prediction_n N \<alpha> \<gamma> episodes rnd = Some (Inr V))"
proof -
  have init: "initialize_grid_n N = Inr (zero_grid N)"
    using assms by (simp add: initialize_grid_n_nonneg)
  show ?thesis
    using td_episodes_n_no_error[OF assms, of \<alpha> \<gamma> "[1..episodes]" "zero_grid N" rnd]
    by (auto simp: td_prediction_n_def init split: option.splits sum.splits)
qed

lemma td_prediction_n_no_episode:
  "0 \<le> N \<Longrightarrow> episodes \<le> 0 \<Longrightarrow> td_prediction_n N \<alpha> \<gamma> episodes rnd = Some (Inr (zero_grid N))"
  by (simp add: td_prediction_n_def initialize_grid_n_nonneg)

lemma td_prediction_n_empty_grid:
  "1 \<le> episodes \<Longrightarrow> td_prediction_n 0 \<alpha> \<gamma> episodes rnd = Some (Inl ValueError)"
  by (simp add: td_prediction_n_def initialize_grid_n_nonneg upto_rec1[of 1 episodes]
      td_start_state_n_def)

lemma value_iteration_n_empty_grid: "0 < \<theta> \<Longrightarrow> value_iteration_n 0 \<gamma> \<theta> max_iters = Inr []"
  by (simp add: value_iteration_n_def initialize_grid_n_def np_zeros_def vi_loop_n.simps
      vi_sweep_n_def cells_n_def py_range_def)

lemmas dp_eval = dp_sweep_def cells_eval dp_cell_def is_terminal_def actions_def ACTIONS_def
  dp_value_sum_def get_next_states_def GRID_SIZE_def grid_get_def grid_set_def eval_nat_numeral

lemma dp_prediction_gamma_2:
  "dp_prediction 2 2
     = Some [[0, - 1, - 1, - 1], [- 1, - 1, - 1, - 1], [- 1, - 1, - 1, - 1], [- 1, - 1, - 1, - 1]]"
  unfolding dp_prediction_def initialize_grid_eval
  by (subst dp_loop.simps) (simp add: dp_eval)

text \<open>
  C8, as the claim states it, fails: no solver checks its configuration. With the discount
  factor 2, outside \<open>[0, 1]\<close>, \<^verbatim>\<open>value_iteration\<close> and \<^verbatim>\<open>dp_prediction\<close> sweep and return a
  table; with the episode count \<open>-5\<close>, \<^verbatim>\<open>td_prediction\<close> returns the zero table; with the grid
  size 0, \<^verbatim>\<open>value_iteration\<close> returns the empty table.
\<close>

theorem validation_counterexample:
  "value_iteration 2 THETA 1
     = [[0, - 1, - 1, - 1], [- 1, - 1, - 1, - 1], [- 1, - 1, - 1, - 1], [- 1, - 1, - 1, - 1]]
   \<and> value_iteration_n GRID_SIZE 2 THETA 1
     = Inr [[0, - 1, - 1, - 1], [- 1, - 1, - 1, - 1], [- 1, - 1, - 1, - 1], [- 1, - 1, - 1, - 1]]
   \<and> dp_prediction 2 2
     = Some [[0, - 1, - 1, - 1], [- 1, - 1, - 1, - 1], [- 1, - 1, - 1, - 1], [- 1, - 1, - 1, - 1]]
   \<and> td_prediction ALPHA GAMMA_TD (- 5) [] = Some initialize_grid
   \<and> td_prediction_n GRID_SIZE ALPHA GAMMA_TD (- 5) [] = Some (Inr initialize_grid)
   \<and> value_iteration_n 0 GAMMA_VI THETA 1000 = Inr []"
  using value_iteration_gamma_2 dp_prediction_gamma_2
    td_prediction_no_episode[of "- 5" ALPHA GAMMA_TD "[]"]
    value_iteration_n_empty_grid[of THETA GAMMA_VI 1000]
  by (simp add: value_iteration_n_grid_size td_prediction_n_grid_size THETA_def)

text \<open>
  C8, amended. The solvers do not validate their configuration; the only errors are those
  that numpy raises. With a negative grid size every solver stops at its first statement,
  \<^verbatim>\<open>initialize_grid\<close>, where \<^verbatim>\<open>np.zeros\<close> raises \<^verbatim>\<open>ValueError\<close>, before any sweep or episode.
  With a grid size \<open>N \<ge> 0\<close>, whatever the discount factor, the threshold and the iteration cap
  (a discount factor outside \<open>[0, 1]\<close> included), \<^verbatim>\<open>value_iteration\<close> raises nothing and returns
  the table after at least one sweep, and \<^verbatim>\<open>dp_prediction\<close> raises nothing: it returns the table
  after at least one sweep or does not terminate. \<^verbatim>\<open>td_prediction\<close> with \<open>N \<ge> 0\<close> and an episode
  count of zero or less runs no episode and returns the zero table; with \<open>N = 0\<close> and at least
  one episode it stops at the first \<^verbatim>\<open>np.random.randint(0, 0)\<close> with \<^verbatim>\<open>ValueError\<close>, before any
  update; with \<open>N \<ge> 1\<close> it raises nothing, whatever the learning rate, the discount factor and
  the episode count. For \<open>N = GRID_SIZE\<close> these are the solvers of the notebooks.
\<close>

theorem no_configuration_check:
  "(N < 0 \<longrightarrow>
      value_iteration_n N \<gamma> \<theta> max_iters = Inl ValueError
      \<and> dp_prediction_n N \<gamma> \<theta> = Some (Inl ValueError)
      \<and> td_prediction_n N \<alpha> \<gamma> episodes rnd = Some (Inl ValueError))
   \<and> (0 \<le> N \<longrightarrow> (\<exists>k. 1 \<le> k \<and> value_iteration_n N \<gamma> \<theta> max_iters = Inr (vi_tables_n N \<gamma> k)))
   \<and> (0 \<le> N \<longrightarrow>
        dp_prediction_n N \<gamma> \<theta> = None
        \<or> (\<exists>k. 1 \<le> k \<and> dp_prediction_n N \<gamma> \<theta> = Some (Inr (dp_tables_n N \<gamma> k))))
   \<and> (0 \<le> N \<and> episodes \<le> 0 \<longrightarrow> td_prediction_n N \<alpha> \<gamma> episodes rnd = Some (Inr (zero_grid N)))
   \<and> (N = 0 \<and> 1 \<le> episodes \<longrightarrow> td_prediction_n N \<alpha> \<gamma> episodes rnd = Some (Inl ValueError))
   \<and> (1 \<le> N \<longrightarrow>
        td_prediction_n N \<alpha> \<gamma> episodes rnd = None
        \<or> (\<exists>V. td_prediction_n N \<alpha> \<gamma> episodes rnd = Some (Inr V)))
   \<and> value_iteration_n GRID_SIZE \<gamma> \<theta> max_iters = Inr (value_iteration \<gamma> \<theta> max_iters)
   \<and> dp_prediction_n GRID_SIZE \<gamma> \<theta> = map_option Inr (dp_prediction \<gamma> \<theta>)
   \<and> td_prediction_n GRID_SIZE \<alpha> \<gamma> episodes rnd = map_option Inr (td_prediction \<alpha> \<gamma> episodes rnd)"
proof (intro conjI impI)
  assume "N < 0"
  then have init: "initialize_grid_n N = Inl ValueError" by (rule initialize_grid_n_negative)
  show "value_iteration_n N \<gamma> \<theta> max_iters = Inl ValueError"
    by (simp add: value_iteration_n_def init)
  show "dp_prediction_n N \<gamma> \<theta> = Some (Inl ValueError)"
    by (simp add: dp_prediction_n_def init)
  show "td_prediction_n N \<alpha> \<gamma> episodes rnd = Some (Inl ValueError)"
    by (simp add: td_prediction_n_def init)
next
  assume "0 \<le> N"
  from value_iteration_n_returns[OF this, of max_iters \<gamma> \<theta>]
  show "\<exists>k. 1 \<le> k \<and> value_iteration_n N \<gamma> \<theta> max_iters = Inr (vi_tables_n N \<gamma> k)" by blast
next
  assume "0 \<le> N"
  then show "dp_prediction_n N \<gamma> \<theta> = None
      \<or> (\<exists>k. 1 \<le> k \<and> dp_prediction_n N \<gamma> \<theta> = Some (Inr (dp_tables_n N \<gamma> k)))"
    by (rule dp_prediction_n_returns)
next
  assume "0 \<le> N \<and> episodes \<le> 0"
  then show "td_prediction_n N \<alpha> \<gamma> episodes rnd = Some (Inr (zero_grid N))"
    by (simp add: td_prediction_n_no_episode)
next
  assume "N = 0 \<and> 1 \<le> episodes"
  then show "td_prediction_n N \<alpha> \<gamma> episodes rnd = Some (Inl ValueError)"
    by (simp add: td_prediction_n_empty_grid)
next
  assume "1 \<le> N"
  then show "td_prediction_n N \<alpha> \<gamma> episodes rnd = None
      \<or> (\<exists>V. td_prediction_n N \<alpha> \<gamma> episodes rnd = Some (Inr V))"
    by (rule td_prediction_n_no_error)
next
  show "value_iteration_n GRID_SIZE \<gamma> \<theta> max_iters = Inr (value_iteration \<gamma> \<theta> max_iters)"
    by (rule value_iteration_n_grid_size)
  show "dp_prediction_n GRID_SIZE \<gamma> \<theta> = map_option Inr (dp_prediction \<gamma> \<theta>)"
    by (rule dp_prediction_n_grid_size)
  show "td_prediction_n GRID_SIZE \<alpha> \<gamma> episodes rnd
      = map_option Inr (td_prediction \<alpha> \<gamma> episodes rnd)"
    by (rule td_prediction_n_grid_size)
qed

theorem no_configuration_check_witness:
  "(- 1 :: int) < 0
   \<and> value_iteration_n (- 1) 2 THETA 1 = Inl ValueError
   \<and> dp_prediction_n (- 1) 2 THETA = Some (Inl ValueError)
   \<and> td_prediction_n (- 1) ALPHA 2 (- 5) [] = Some (Inl ValueError)
   \<and> (\<exists>k. 1 \<le> k \<and> value_iteration_n GRID_SIZE 2 THETA 1 = Inr (vi_tables_n GRID_SIZE 2 k))
   \<and> value_iteration_n GRID_SIZE 2 THETA 1 = Inr (value_iteration 2 THETA 1)
   \<and> td_prediction_n GRID_SIZE ALPHA 2 (- 5) [] = Some (Inr (zero_grid GRID_SIZE))
   \<and> td_prediction_n 0 ALPHA 2 1 [] = Some (Inl ValueError)"
  using no_configuration_check[of "- 1" 2 THETA 1 ALPHA "- 5" "[]"]
    no_configuration_check[of GRID_SIZE 2 THETA 1 ALPHA "- 5" "[]"]
    no_configuration_check[of 0 2 THETA 1 ALPHA 1 "[]"]
  by (simp add: GRID_SIZE_def)

section \<open>Values and the distance to the terminal state\<close>

lemma manhattan_grid_get:
  assumes "in_grid s"
  shows "grid_get manhattan_grid s = - real_of_int (manhattan s)"
  using cells_in_grid[OF assms]
  by (auto simp: cells_eval manhattan_grid_def grid_get_def manhattan_def)

lemma value_iteration_manhattan:
  "7 \<le> max_iters \<Longrightarrow> value_iteration GAMMA_VI THETA max_iters = manhattan_grid"
  using vi_loop_converges[of max_iters]
  by (simp add: value_iteration_fst GAMMA_VI_def THETA_def manhattan_grid_def)

text \<open>
  C7. For the converged runs of the two Bellman solvers on their configurations
  (\<^verbatim>\<open>value_iteration\<close> with \<open>\<gamma> = 1\<close>, \<open>\<theta> = 1e-4\<close> and any cap of at least 7, which it
  leaves through \<^verbatim>\<open>delta < THETA\<close>; \<^verbatim>\<open>dp_prediction\<close> with \<open>\<gamma> = 0.9\<close>, \<open>\<theta> = 1e-4\<close>), and
  every two states \<open>s1\<close>, \<open>s2\<close> of the grid: if \<open>s1\<close> is strictly nearer to the terminal
  state \<open>(0, 0)\<close> in Manhattan distance than \<open>s2\<close>, the returned value of \<open>s1\<close> is strictly
  greater than that of \<open>s2\<close>. \<^verbatim>\<open>dp_prediction\<close> does return on its configuration.
\<close>

theorem converged_values_fall_with_distance:
  assumes "in_grid s1" "in_grid s2" "manhattan s1 < manhattan s2"
  shows "(7 \<le> max_iters \<longrightarrow>
            grid_get (value_iteration GAMMA_VI THETA max_iters) s2
              < grid_get (value_iteration GAMMA_VI THETA max_iters) s1)
       \<and> (\<exists>V. dp_prediction GAMMA_DP THETA = Some V \<and> grid_get V s2 < grid_get V s1)"
proof (intro conjI impI)
  assume "7 \<le> max_iters"
  then show "grid_get (value_iteration GAMMA_VI THETA max_iters) s2
      < grid_get (value_iteration GAMMA_VI THETA max_iters) s1"
    using assms by (simp add: value_iteration_manhattan manhattan_grid_get)
next
  from dp_prediction_converges obtain Q N where
    "0 < Q" "int_shape N" "int_monotone N" "dp_prediction GAMMA_DP THETA = Some (to_grid Q N)"
    by blast
  with to_grid_monotone[OF _ _ _ assms, of Q N]
  show "\<exists>V. dp_prediction GAMMA_DP THETA = Some V \<and> grid_get V s2 < grid_get V s1"
    by blast
qed

theorem converged_values_fall_with_distance_witness:
  "in_grid (0, 1) \<and> in_grid (3, 3) \<and> manhattan (0, 1) < manhattan (3, 3) \<and> (7::int) \<le> 1000
   \<and> grid_get (value_iteration GAMMA_VI THETA 1000) (3, 3)
       < grid_get (value_iteration GAMMA_VI THETA 1000) (0, 1)
   \<and> (\<exists>V. dp_prediction GAMMA_DP THETA = Some V \<and> grid_get V (3, 3) < grid_get V (0, 1))"
proof -
  have h: "in_grid (0, 1)" "in_grid (3, 3)" "manhattan (0, 1) < manhattan (3, 3)"
    by (simp_all add: in_grid_def GRID_SIZE_def manhattan_def)
  from converged_values_fall_with_distance[OF h, of 1000] h show ?thesis by simp
qed

section \<open>The TD(0) estimator against its specification\<close>

lemma td_update_spec:
  assumes "in_grid s" "0 \<le> a" "a < 4"
  shows "td_update \<alpha> \<gamma> V s a = spec_td_step \<alpha> \<gamma> V s a"
  using get_next_state_env_step[OF assms]
  by (simp add: td_update_def spec_td_step_def env_step_def Let_def)

lemma td_episode_spec:
  "draws_ok rnd \<Longrightarrow> in_grid s \<Longrightarrow> td_episode \<alpha> \<gamma> V s rnd = spec_td_episode \<alpha> \<gamma> V s rnd"
proof (induction rnd arbitrary: V s)
  case Nil
  show ?case by (simp add: td_episode.simps[of \<alpha> \<gamma> V s "[]"] is_terminal_def)
next
  case (Cons a rnd)
  have a: "0 \<le> a" "a < 4" and rest: "draws_ok rnd"
    using Cons.prems(1) by (simp_all add: draws_ok_def)
  obtain V' s' where step: "spec_td_step \<alpha> \<gamma> V s a = (V', s')"
    by (cases "spec_td_step \<alpha> \<gamma> V s a")
  have up: "td_update \<alpha> \<gamma> V s a = (V', s')"
    using td_update_spec[OF Cons.prems(2) a] step by simp
  have "in_grid s'"
    using up in_grid_get_next_state[OF Cons.prems(2), of a] td_update_next[of \<alpha> \<gamma> V s a] by simp
  from Cons.IH[OF rest this, of V'] step up show ?case
    by (simp add: td_episode.simps[of \<alpha> \<gamma> V s "a # rnd"] is_terminal_def)
qed

lemma td_episode_suffix:
  assumes "in_grid s" "td_episode \<alpha> \<gamma> V s rnd = Some (V', rnd')"
  shows "\<exists>used. rnd = used @ rnd'"
  using td_episode_invariant[of "\<lambda>V. True" \<alpha> \<gamma> V s rnd V' rnd'] assms by simp

lemma td_start_state_draws:
  assumes "draws_ok rnd" "td_start_state rnd = Some (state, rnd')"
  shows "in_grid state \<and> rnd = fst state # snd state # rnd' \<and> draws_ok rnd'"
  using assms
  by (cases rnd rule: td_start_state.cases) (auto simp: draws_ok_def in_grid_def GRID_SIZE_def)

lemma td_episodes_spec:
  "draws_ok rnd \<Longrightarrow> td_episodes \<alpha> \<gamma> es V rnd = spec_td_run \<alpha> \<gamma> (length es) V rnd"
proof (induction es arbitrary: V rnd)
  case Nil
  show ?case by simp
next
  case (Cons episode es)
  show ?case
  proof (cases "td_start_state rnd")
    case None
    then show ?thesis by (cases rnd rule: td_start_state.cases) simp_all
  next
    case (Some p)
    obtain i j rest where p: "p = ((i, j), rest)" by (cases p) auto
    have rnd: "rnd = i # j # rest" and start: "in_grid (i, j)" and rest: "draws_ok rest"
      using td_start_state_draws[OF Cons.prems, of "(i, j)" rest] Some p by simp_all
    have ep: "td_episode \<alpha> \<gamma> V (i, j) rest = spec_td_episode \<alpha> \<gamma> V (i, j) rest"
      by (rule td_episode_spec[OF rest start])
    show ?thesis
    proof (cases "spec_td_episode \<alpha> \<gamma> V (i, j) rest")
      case None
      with ep rnd show ?thesis by simp
    next
      case (Some r)
      obtain V' rnd' where r: "r = (V', rnd')" by (cases r)
      from td_episode_suffix[OF start, of \<alpha> \<gamma> V rest V' rnd'] ep Some r rest
      have "draws_ok rnd'" by (auto dest: draws_ok_append)
      from Cons.IH[OF this, of V'] ep Some r rnd show ?thesis by simp
    qed
  qed
qed

text \<open>
  C6, as the claim states it, fails: the start state of an episode is made of two draws from
  0..3 and can be the terminal state. With the draws 0 and 0 the episode starts at \<open>(0, 0)\<close>
  and ends at once; \<^verbatim>\<open>td_prediction\<close> with one episode then returns the zero table.
\<close>

theorem td_start_counterexample:
  "draws_ok [0, 0] \<and> td_start_state [0, 0] = Some ((0, 0), []) \<and> is_terminal (0, 0)
   \<and> td_prediction ALPHA GAMMA_TD 1 [0, 0] = Some initialize_grid"
  using td_prediction_terminal_start by (simp add: draws_ok_def is_terminal_def)

text \<open>
  C6, amended. \<^verbatim>\<open>td_prediction\<close> runs the configured number of episodes (none when the
  number is negative). Each episode starts at the state made of two draws: a cell of the
  grid, which may be the terminal state. As long as the current state is not terminal, the
  episode draws an action, obtains \<open>(next_state, reward)\<close> from the environment transition and
  updates \<open>V(s) := V(s) + \<alpha> (R + \<gamma> V(s') - V(s))\<close>; it stops exactly when the current state is
  terminal. The draws are inputs of the model: that they are uniform is not stated.
\<close>

theorem td_prediction_follows_specification:
  assumes "draws_ok rnd"
  shows "td_prediction \<alpha> \<gamma> episodes rnd
           = map_option fst (spec_td_run \<alpha> \<gamma> (nat episodes) initialize_grid rnd)
       \<and> (\<forall>state rnd'. td_start_state rnd = Some (state, rnd')
             \<longrightarrow> in_grid state \<and> rnd = fst state # snd state # rnd')"
proof (intro conjI allI impI)
  show "td_prediction \<alpha> \<gamma> episodes rnd
      = map_option fst (spec_td_run \<alpha> \<gamma> (nat episodes) initialize_grid rnd)"
    by (simp add: td_prediction_def td_episodes_spec[OF assms])
  show "in_grid state" "rnd = fst state # snd state # rnd'"
    if "td_start_state rnd = Some (state, rnd')" for state rnd'
    using td_start_state_draws[OF assms that] by simp_all
qed

theorem td_prediction_follows_specification_witness:
  "draws_ok [0, 1, 2, 1, 1, 0, 2]
   \<and> td_prediction ALPHA GAMMA_TD 2 [0, 1, 2, 1, 1, 0, 2]
       = map_option fst (spec_td_run ALPHA GAMMA_TD (nat 2) initialize_grid [0, 1, 2, 1, 1, 0, 2])
   \<and> td_prediction ALPHA GAMMA_TD 2 [0, 1, 2, 1, 1, 0, 2]
       = Some [[0, - (19 / 100), 0, 0], [0, - (109 / 1000), 0, 0], [0, 0, 0, 0], [0, 0, 0, 0]]
   \<and> td_start_state [0, 1, 2, 1, 1, 0, 2] = Some ((0, 1), [2, 1, 1, 0, 2]) \<and> in_grid (0, 1)"
proof -
  have t: "td_start_state [0, 1, 2, 1, 1, 0, 2] = Some ((0, 1), [2, 1, 1, 0, 2])" by simp
  from td_prediction_follows_specification[OF draws_ok_example, of ALPHA GAMMA_TD 2] t
  have "td_prediction ALPHA GAMMA_TD 2 [0, 1, 2, 1, 1, 0, 2]
       = map_option fst (spec_td_run ALPHA GAMMA_TD (nat 2) initialize_grid [0, 1, 2, 1, 1, 0, 2])"
    and "in_grid (0, 1)"
    by auto
  with t draws_ok_example td_prediction_example show ?thesis by simp
qed

section \<open>Monte Carlo prediction\<close>

lemma mc_trajectory_rewards:
  "mc_trajectory s rnd = Some (tr, rnd') \<Longrightarrow> \<forall>x\<in>set tr. snd x = - 1 \<and> \<not> is_terminal (fst x)"
proof (induction rnd arbitrary: s tr)
  case Nil
  then show ?case by (simp split: if_splits)
next
  case (Cons a rnd)
  show ?case
  proof (cases "is_terminal s")
    case True
    with Cons.prems show ?thesis by simp
  next
    case False
    obtain s' R where step: "env_step s (action_offset a) = (s', R)"
      by (cases "env_step s (action_offset a)")
    then have R: "R = - 1" by (simp add: env_step_def)
    from Cons.prems False step obtain tr' where
      rec: "mc_trajectory s' rnd = Some (tr', rnd')" and tr: "tr = (s, R) # tr'"
      by (auto split: option.splits)
    from Cons.IH[OF rec] tr R False show ?thesis by simp
  qed
qed

lemma mc_returns_length: "length (mc_returns \<gamma> rs) = length rs"
  by (induction rs) simp_all

lemma mc_returns_head:
  "(case mc_returns \<gamma> rs of [] \<Rightarrow> 0 | G # _ \<Rightarrow> G)
     = (\<Sum>k<length rs. \<gamma> ^ k * real_of_int (rs ! k))"
proof (induction rs)
  case Nil
  show ?case by simp
next
  case (Cons R rs)
  have "(\<Sum>k<Suc (length rs). \<gamma> ^ k * real_of_int ((R # rs) ! k))
      = real_of_int R + (\<Sum>k<length rs. \<gamma> ^ Suc k * real_of_int (rs ! k))"
    by (subst sum.lessThan_Suc_shift) simp
  also have "\<dots> = real_of_int R + \<gamma> * (\<Sum>k<length rs. \<gamma> ^ k * real_of_int (rs ! k))"
    by (simp add: sum_distrib_left mult.assoc)
  finally show ?case using Cons.IH by simp
qed

lemma mc_returns_nth:
  "t < length rs \<Longrightarrow>
   mc_returns \<gamma> rs ! t = (\<Sum>k<length rs - t. \<gamma> ^ k * real_of_int (rs ! (t + k)))"
proof (induction rs arbitrary: t)
  case Nil
  then show ?case by simp
next
  case (Cons R rs)
  show ?case
  proof (cases t)
    case 0
    then show ?thesis using mc_returns_head[of \<gamma> "R # rs"] by simp
  next
    case (Suc t')
    with Cons.prems have "t' < length rs" by simp
    from Cons.IH[OF this] Suc show ?thesis by simp
  qed
qed

lemma int_get_set:
  assumes "int_shape N" "in_grid s" "in_grid t"
  shows "int_get (int_set N s v) t = (if s = t then v else int_get N t)"
proof -
  obtain i j where s: "s = (i, j)" by (cases s)
  obtain k l where t: "t = (k, l)" by (cases t)
  have len: "length N = 4" "\<And>n. n < 4 \<Longrightarrow> length (N ! n) = 4"
    using assms(1) by (auto simp: int_shape_def GRID_SIZE_def list_all_length)
  have b: "nat i < 4" "nat j < 4" "nat k < 4" "nat l < 4" "0 \<le> i" "0 \<le> j" "0 \<le> k" "0 \<le> l"
    using assms(2,3) by (auto simp: in_grid_def s t GRID_SIZE_def)
  show ?thesis
    using len b by (auto simp: int_get_def int_set_def s t nth_list_update)
qed

lemma mc_update_toward:
  assumes "grid_shape V" "int_shape N" "in_grid s" "0 \<le> int_get N s"
  shows "int_get (snd (mc_update (V, N) s G)) s = int_get N s + 1
       \<and> grid_get (fst (mc_update (V, N) s G)) s
           = grid_get V s + (G - grid_get V s) / real_of_int (int_get N s + 1)
       \<and> \<bar>grid_get (fst (mc_update (V, N) s G)) s - G\<bar> \<le> \<bar>grid_get V s - G\<bar>"
proof -
  define n where "n = real_of_int (int_get N s + 1)"
  define v where "v = grid_get V s"
  have n: "1 \<le> n" using assms(4) by (simp add: n_def)
  have new: "grid_get (fst (mc_update (V, N) s G)) s = v + (G - v) / n"
    using assms(1,3) by (simp add: mc_update_def grid_get_set n_def v_def)
  have "v + (G - v) / n - G = (v - G) * (1 - 1 / n)"
    using n by (simp add: field_simps)
  moreover have "0 \<le> 1 - 1 / n" "1 - 1 / n \<le> 1" using n by simp_all
  ultimately have "\<bar>v + (G - v) / n - G\<bar> \<le> \<bar>v - G\<bar>"
    by (simp add: abs_mult mult_left_le)
  with new assms(2,3) show ?thesis
    by (simp add: mc_update_def int_get_set n_def v_def)
qed

lemma mc_update_count:
  assumes "int_shape N" "in_grid s" "in_grid t"
  shows "int_get (snd (mc_update (V, N) t G)) s = int_get N s + (if s = t then 1 else 0)"
  using assms by (auto simp: mc_update_def int_get_set)

lemma mc_update_shape: "int_shape (snd VN) \<Longrightarrow> int_shape (snd (mc_update VN t G))"
  by (cases VN) (simp add: mc_update_def int_shape_set)

lemma mc_process_every_visit:
  "int_shape (snd VN) \<Longrightarrow> in_grid s \<Longrightarrow> \<forall>x\<in>set visits. in_grid (fst x) \<Longrightarrow>
   int_get (snd (mc_process EveryVisit seen visits VN)) s
     = int_get (snd VN) s + int (count_list (map fst visits) s)"
proof (induction visits arbitrary: seen VN)
  case Nil
  show ?case by simp
next
  case (Cons x visits)
  obtain t G where x: "x = (t, G)" by (cases x)
  obtain V N where VN: "VN = (V, N)" by (cases VN)
  have t: "in_grid t" using Cons.prems(3) x by simp
  have "int_get (snd (mc_process EveryVisit (t # seen) visits (mc_update VN t G))) s
      = int_get (snd (mc_update VN t G)) s + int (count_list (map fst visits) s)"
    using Cons.prems by (intro Cons.IH) (simp_all add: mc_update_shape)
  then show ?case
    using mc_update_count[OF _ Cons.prems(2) t, of N V G] Cons.prems(1) x VN by auto
qed

lemma mc_process_first_visit:
  "int_shape (snd VN) \<Longrightarrow> in_grid s \<Longrightarrow> \<forall>x\<in>set visits. in_grid (fst x) \<Longrightarrow>
   int_get (snd (mc_process FirstVisit seen visits VN)) s
     = int_get (snd VN) s + (if s \<in> fst ` set visits \<and> s \<notin> set seen then 1 else 0)"
proof (induction visits arbitrary: seen VN)
  case Nil
  show ?case by simp
next
  case (Cons x visits)
  obtain t G where x: "x = (t, G)" by (cases x)
  obtain V N where VN: "VN = (V, N)" by (cases VN)
  have t: "in_grid t" using Cons.prems(3) x by simp
  show ?case
  proof (cases "t \<in> set seen")
    case True
    have "int_get (snd (mc_process FirstVisit (t # seen) visits VN)) s
        = int_get (snd VN) s + (if s \<in> fst ` set visits \<and> s \<notin> set (t # seen) then 1 else 0)"
      using Cons.prems by (intro Cons.IH) simp_all
    with True x show ?thesis by auto
  next
    case False
    have "int_get (snd (mc_process FirstVisit (t # seen) visits (mc_update VN t G))) s
        = int_get (snd (mc_update VN t G)) s
          + (if s \<in> fst ` set visits \<and> s \<notin> set (t # seen) then 1 else 0)"
      using Cons.prems by (intro Cons.IH) (simp_all add: mc_update_shape)
    with False x VN mc_update_count[OF _ Cons.prems(2) t, of N V G] Cons.prems(1)
    show ?thesis by auto
  qed
qed

lemma mc_prediction_first_visit_example:
  "mc_prediction FirstVisit (9 / 10) 1 [0, 1, 3, 2, 2, 2]
     = Some [[0, - (271 / 100), - (19 / 10), 0], [0, 0, 0, 0], [0, 0, 0, 0], [0, 0, 0, 0]]"
  by (simp add: mc_prediction_def initialize_grid_eval GRID_SIZE_def eval_nat_numeral(2,3)
      is_terminal_def env_step_def action_offset_def displaced_def in_grid_def
      mc_update_def grid_get_def grid_set_def int_get_def int_set_def)

lemma mc_prediction_every_visit_example:
  "mc_prediction EveryVisit (9 / 10) 1 [0, 1, 3, 2, 2, 2]
     = Some [[0, - (371 / 200), - (19 / 10), 0], [0, 0, 0, 0], [0, 0, 0, 0], [0, 0, 0, 0]]"
  by (simp add: mc_prediction_def initialize_grid_eval GRID_SIZE_def eval_nat_numeral(2,3)
      is_terminal_def env_step_def action_offset_def displaced_def in_grid_def
      mc_update_def grid_get_def grid_set_def int_get_def int_set_def)

lemma mc_walk_Nil: "mc_walk s [] = s"
  by (simp add: mc_walk_def)

lemma mc_walk_Cons: "mc_walk s (a # as) = mc_walk (fst (env_step s (action_offset a))) as"
  by (simp add: mc_walk_def)

text \<open>A trajectory that is returned is the walk from the start state along the draws it used,
  up to the first terminal state.\<close>

lemma mc_trajectory_path:
  "mc_trajectory s0 rnd = Some (tr, rnd') \<Longrightarrow>
   rnd = take (length tr) rnd @ rnd'
   \<and> (\<forall>i<length tr. tr ! i = (mc_walk s0 (take i rnd), - 1)
                      \<and> \<not> is_terminal (mc_walk s0 (take i rnd)))
   \<and> is_terminal (mc_walk s0 (take (length tr) rnd))"
proof (induction rnd arbitrary: s0 tr)
  case Nil
  then show ?case by (simp add: mc_walk_Nil split: if_splits)
next
  case (Cons a rnd)
  show ?case
  proof (cases "is_terminal s0")
    case True
    with Cons.prems show ?thesis by (simp add: mc_walk_Nil)
  next
    case False
    obtain s' R where step: "env_step s0 (action_offset a) = (s', R)"
      by (cases "env_step s0 (action_offset a)")
    then have R: "R = - 1" by (simp add: env_step_def)
    from Cons.prems False step obtain tr' where
      rec: "mc_trajectory s' rnd = Some (tr', rnd')" and tr: "tr = (s0, R) # tr'"
      by (auto split: option.splits)
    note IH = Cons.IH[OF rec]
    have walk: "mc_walk s0 (a # as) = mc_walk s' as" for as
      using step by (simp add: mc_walk_Cons)
    have "tr ! i = (mc_walk s0 (take i (a # rnd)), - 1)
        \<and> \<not> is_terminal (mc_walk s0 (take i (a # rnd)))" if "i < length tr" for i
    proof (cases i)
      case 0
      with tr R False show ?thesis by (simp add: mc_walk_Nil)
    next
      case (Suc i')
      with that tr have "i' < length tr'" by simp
      with IH Suc tr show ?thesis by (simp add: walk)
    qed
    moreover have "a # rnd = take (length tr) (a # rnd) @ rnd'"
      using IH tr by simp
    moreover have "is_terminal (mc_walk s0 (take (length tr) (a # rnd)))"
      using IH tr by (simp add: walk)
    ultimately show ?thesis by blast
  qed
qed

text \<open>An episode is run to termination: when the walk along the draws reaches the terminal
  state, a trajectory is returned.\<close>

lemma mc_trajectory_complete:
  "\<exists>n\<le>length rnd. is_terminal (mc_walk s0 (take n rnd)) \<Longrightarrow> mc_trajectory s0 rnd \<noteq> None"
proof (induction rnd arbitrary: s0)
  case Nil
  then show ?case by (simp add: mc_walk_Nil)
next
  case (Cons a rnd)
  show ?case
  proof (cases "is_terminal s0")
    case True
    then show ?thesis by simp
  next
    case False
    obtain s' R where step: "env_step s0 (action_offset a) = (s', R)"
      by (cases "env_step s0 (action_offset a)")
    from Cons.prems obtain n where n: "n \<le> length (a # rnd)"
      "is_terminal (mc_walk s0 (take n (a # rnd)))" by blast
    with False obtain m where m: "n = Suc m" by (cases n) (auto simp: mc_walk_Nil)
    with n step have "m \<le> length rnd" "is_terminal (mc_walk s' (take m rnd))"
      by (simp_all add: mc_walk_Cons)
    then have "mc_trajectory s' rnd \<noteq> None" by (intro Cons.IH) blast
    with False step show ?thesis by (auto split: option.splits)
  qed
qed

lemma mc_trajectory_in_grid:
  "in_grid s0 \<Longrightarrow> mc_trajectory s0 rnd = Some (tr, rnd') \<Longrightarrow> \<forall>x\<in>set tr. in_grid (fst x)"
proof (induction rnd arbitrary: s0 tr)
  case Nil
  then show ?case by (simp split: if_splits)
next
  case (Cons a rnd)
  show ?case
  proof (cases "is_terminal s0")
    case True
    with Cons.prems show ?thesis by simp
  next
    case False
    obtain s' R where step: "env_step s0 (action_offset a) = (s', R)"
      by (cases "env_step s0 (action_offset a)")
    have s': "in_grid s'" using in_grid_env_step[OF Cons.prems(1), of "action_offset a"] step by simp
    from Cons.prems(2) False step obtain tr' where
      rec: "mc_trajectory s' rnd = Some (tr', rnd')" and tr: "tr = (s0, R) # tr'"
      by (auto split: option.splits)
    from Cons.IH[OF s' rec] tr Cons.prems(1) show ?thesis by simp
  qed
qed

lemma mc_visits_in_grid:
  "\<forall>x\<in>set tr. in_grid (fst x) \<Longrightarrow> \<forall>x\<in>set (mc_visits \<gamma> tr). in_grid (fst x)"
  by (fastforce simp: mc_visits_def dest!: set_zip_leftD)

lemma mc_wf_count: "mc_wf VN \<Longrightarrow> in_grid t \<Longrightarrow> 0 \<le> int_get (snd VN) t"
  unfolding mc_wf_def by blast

lemma mc_wf_shape: "mc_wf VN \<Longrightarrow> grid_shape (fst VN) \<and> int_shape (snd VN)"
  unfolding mc_wf_def by blast

lemma mc_accounts_refl: "mc_accounts VN VN s []"
  by (simp add: mc_accounts_def)

lemma mc_accounts_trans:
  assumes "mc_accounts A B s U1" "mc_accounts B C s U2"
  shows "mc_accounts A C s (U1 @ U2)"
proof -
  have c: "int_get (snd C) s = int_get (snd A) s + int (length (U1 @ U2))"
    using assms by (simp add: mc_accounts_def)
  have "real_of_int (int_get (snd C) s) * grid_get (fst C) s
      = real_of_int (int_get (snd B) s) * grid_get (fst B) s + sum_list U2"
    using assms(2) unfolding mc_accounts_def by blast
  also have "real_of_int (int_get (snd B) s) * grid_get (fst B) s
      = real_of_int (int_get (snd A) s) * grid_get (fst A) s + sum_list U1"
    using assms(1) unfolding mc_accounts_def by blast
  finally have v: "real_of_int (int_get (snd C) s) * grid_get (fst C) s
      = real_of_int (int_get (snd A) s) * grid_get (fst A) s + sum_list (U1 @ U2)"
    by simp
  have "grid_get (fst C) s = grid_get (fst A) s" if "U1 @ U2 = []"
    using assms that unfolding mc_accounts_def by simp
  with c v show ?thesis unfolding mc_accounts_def by blast
qed

text \<open>One update: the count of the updated state grows by one and its count times its value
  by the return; no other state of the grid changes.\<close>

lemma mc_update_accounts:
  assumes "mc_wf VN" "in_grid t" "in_grid s"
  shows "mc_accounts VN (mc_update VN t G) s (if s = t then [G] else [])"
proof -
  obtain V N where VN: "VN = (V, N)" by (cases VN)
  have wf: "grid_shape V" "int_shape N" "0 \<le> int_get N t"
    using mc_wf_shape[OF assms(1)] mc_wf_count[OF assms(1,2)] by (simp_all add: VN)
  show ?thesis
  proof (cases "s = t")
    case False
    then show ?thesis
      using wf assms(2,3) by (simp add: mc_accounts_def VN mc_update_def grid_get_set int_get_set)
  next
    case True
    define n where "n = real_of_int (int_get N t)"
    have n: "0 \<le> n" using wf(3) by (simp add: n_def)
    have c: "int_get (snd (mc_update VN t G)) t = int_get N t + 1"
      using wf assms(2) by (simp add: VN mc_update_def int_get_set)
    have "grid_get (fst (mc_update VN t G)) t = grid_get V t + (G - grid_get V t) / (n + 1)"
      using wf assms(2) by (simp add: VN mc_update_def grid_get_set n_def)
    moreover have "(n + 1) * (grid_get V t + (G - grid_get V t) / (n + 1)) = n * grid_get V t + G"
      using n by (simp add: field_simps)
    ultimately have "real_of_int (int_get N t + 1) * grid_get (fst (mc_update VN t G)) t
        = real_of_int (int_get N t) * grid_get V t + G"
      by (simp add: n_def)
    with c True show ?thesis by (simp add: mc_accounts_def VN)
  qed
qed

lemma mc_update_wf:
  assumes "mc_wf VN" "in_grid t"
  shows "mc_wf (mc_update VN t G)"
proof -
  obtain V N where VN: "VN = (V, N)" by (cases VN)
  have wf: "grid_shape V" "int_shape N" "\<And>u. in_grid u \<Longrightarrow> 0 \<le> int_get N u"
    using mc_wf_shape[OF assms(1)] mc_wf_count[OF assms(1)] by (simp_all add: VN)
  have "0 \<le> int_get (int_set N t (int_get N t + 1)) u" if "in_grid u" for u
    using wf(3)[OF that] wf(3)[OF assms(2)] by (simp add: int_get_set[OF wf(2) assms(2) that])
  then show ?thesis
    using wf(1,2) unfolding mc_wf_def VN mc_update_def
    by (simp add: grid_shape_set int_shape_set del: split_paired_All)
qed

text \<open>The updates of an episode, when the states in \<open>seen\<close> have been visited before: in
  first-visit mode a state in \<open>seen\<close> is not updated and any other state is updated with the
  return of its first occurrence; in every-visit mode a state is updated with the returns of
  all its occurrences.\<close>

lemma mc_process_accounts:
  assumes "in_grid s"
  shows "mc_wf VN \<Longrightarrow> \<forall>x\<in>set visits. in_grid (fst x) \<Longrightarrow>
     mc_wf (mc_process mode seen visits VN)
     \<and> mc_accounts VN (mc_process mode seen visits VN) s
         (if mode = FirstVisit \<and> s \<in> set seen then [] else mc_updates mode s visits)"
proof (induction visits arbitrary: seen VN)
  case Nil
  then show ?case by (simp add: mc_accounts_refl mc_updates_def split: mc_mode.splits)
next
  case (Cons x visits)
  obtain t G where x: "x = (t, G)" by (cases x)
  have t: "in_grid t" and rest: "\<forall>x\<in>set visits. in_grid (fst x)"
    using Cons.prems(2) x by simp_all
  define VN1 where "VN1 = (if mode = FirstVisit \<and> t \<in> set seen then VN else mc_update VN t G)"
  define U1 where "U1 = (if mode = FirstVisit \<and> t \<in> set seen then [] else if s = t then [G] else [])"
  define U2 where "U2 = (if mode = FirstVisit \<and> s \<in> set (t # seen) then [] else mc_updates mode s visits)"
  have wf1: "mc_wf VN1"
    using Cons.prems(1) t by (simp add: VN1_def mc_update_wf)
  have a1: "mc_accounts VN VN1 s U1"
    using mc_update_accounts[OF Cons.prems(1) t assms, of G]
    by (auto simp: VN1_def U1_def mc_accounts_refl)
  have proc: "mc_process mode seen (x # visits) VN = mc_process mode (t # seen) visits VN1"
    by (simp add: x VN1_def)
  from Cons.IH[OF wf1 rest, of "t # seen"]
  have wf2: "mc_wf (mc_process mode (t # seen) visits VN1)"
    and a2: "mc_accounts VN1 (mc_process mode (t # seen) visits VN1) s U2"
    by (simp_all add: U2_def)
  have "U1 @ U2 = (if mode = FirstVisit \<and> s \<in> set seen then [] else mc_updates mode s (x # visits))"
    by (cases mode) (auto simp: U1_def U2_def x mc_updates_def)
  with mc_accounts_trans[OF a1 a2] wf2 show ?case by (simp add: proc)
qed

lemma mc_observed_Cons:
  "mc_observed mode \<gamma> s (tr # trs) = mc_updates mode s (mc_visits \<gamma> tr) @ mc_observed mode \<gamma> s trs"
  by (simp add: mc_observed_def)

text \<open>The estimator runs the configured number of episodes, and over them every state of the
  grid is updated with exactly the returns observed for it.\<close>

lemma mc_episodes_accounts:
  assumes "in_grid s"
  shows "draws_ok rnd \<Longrightarrow> mc_wf VN \<Longrightarrow> mc_episodes mode \<gamma> n VN rnd = Some (VN', rnd') \<Longrightarrow>
     \<exists>trs. mc_trajectories n rnd = Some (trs, rnd') \<and> length trs = n \<and> mc_wf VN'
         \<and> mc_accounts VN VN' s (mc_observed mode \<gamma> s trs)"
proof (induction n arbitrary: VN rnd)
  case 0
  then show ?case by (simp add: mc_observed_def mc_accounts_refl)
next
  case (Suc n)
  from Suc.prems(3) obtain i j rest where rnd: "rnd = i # j # rest"
    by (cases rnd rule: td_start_state.cases) auto
  have start: "in_grid (i, j)" and rest: "draws_ok rest"
    using Suc.prems(1) rnd by (simp_all add: draws_ok_def in_grid_def GRID_SIZE_def)
  from Suc.prems(3) rnd obtain tr rnd1 where
    tr: "mc_trajectory (i, j) rest = Some (tr, rnd1)"
    and run: "mc_episodes mode \<gamma> n (mc_process mode [] (mc_visits \<gamma> tr) VN) rnd1 = Some (VN', rnd')"
    by (auto simp: mc_visits_def split: option.splits)
  have visits: "\<forall>x\<in>set (mc_visits \<gamma> tr). in_grid (fst x)"
    by (rule mc_visits_in_grid) (rule mc_trajectory_in_grid[OF start tr])
  from mc_process_accounts[OF assms Suc.prems(2) visits, of mode "[]"]
  have wf1: "mc_wf (mc_process mode [] (mc_visits \<gamma> tr) VN)"
    and a1: "mc_accounts VN (mc_process mode [] (mc_visits \<gamma> tr) VN) s
               (mc_updates mode s (mc_visits \<gamma> tr))"
    by simp_all
  have "rest = take (length tr) rest @ rnd1" using mc_trajectory_path[OF tr] by blast
  with rest have rnd1: "draws_ok rnd1" by (metis draws_ok_append)
  from Suc.IH[OF rnd1 wf1 run] obtain trs where
    trs: "mc_trajectories n rnd1 = Some (trs, rnd')" "length trs = n" "mc_wf VN'"
    and a2: "mc_accounts (mc_process mode [] (mc_visits \<gamma> tr) VN) VN' s (mc_observed mode \<gamma> s trs)"
    by blast
  have "mc_trajectories (Suc n) rnd = Some (tr # trs, rnd')"
    using rnd tr trs(1) by simp
  moreover have "mc_accounts VN VN' s (mc_observed mode \<gamma> s (tr # trs))"
    using mc_accounts_trans[OF a1 a2] by (simp add: mc_observed_Cons)
  ultimately show ?case using trs(2,3) by (intro exI[of _ "tr # trs"]) simp
qed

lemma mc_episodes_returns:
  "mc_trajectories n rnd = Some (trs, rnd') \<Longrightarrow> \<exists>VN'. mc_episodes mode \<gamma> n VN rnd = Some (VN', rnd')"
proof (induction n arbitrary: VN rnd trs)
  case 0
  then show ?case by simp
next
  case (Suc n)
  from Suc.prems obtain i j rest where rnd: "rnd = i # j # rest"
    by (cases rnd rule: td_start_state.cases) auto
  from Suc.prems rnd obtain tr rnd1 trs' where
    tr: "mc_trajectory (i, j) rest = Some (tr, rnd1)"
    and rec: "mc_trajectories n rnd1 = Some (trs', rnd')"
    by (auto split: option.splits)
  from Suc.IH[OF rec] rnd tr show ?case by simp
qed

lemma mc_wf_start:
  "mc_wf (initialize_grid, replicate (nat GRID_SIZE) (replicate (nat GRID_SIZE) 0))"
  unfolding mc_wf_def
  by (auto simp: grid_shape_init int_shape_def list_all_iff int_get_def in_grid_def GRID_SIZE_def
      nth_replicate)

lemma mc_prediction_mean:
  assumes "draws_ok rnd" "in_grid s" "mc_prediction mode \<gamma> episodes rnd = Some W"
  shows "\<exists>trs rnd'. mc_trajectories episodes rnd = Some (trs, rnd') \<and> length trs = episodes
     \<and> grid_get W s
         = (if mc_observed mode \<gamma> s trs = [] then 0
            else sum_list (mc_observed mode \<gamma> s trs) / real (length (mc_observed mode \<gamma> s trs)))"
proof -
  let ?N0 = "replicate (nat GRID_SIZE) (replicate (nat GRID_SIZE) (0::int))"
  from assms(3) obtain N' rnd' where
    run: "mc_episodes mode \<gamma> episodes (initialize_grid, ?N0) rnd = Some ((W, N'), rnd')"
    by (auto simp: mc_prediction_def)
  from mc_episodes_accounts[OF assms(2,1) mc_wf_start run] obtain trs where
    trs: "mc_trajectories episodes rnd = Some (trs, rnd')" "length trs = episodes"
    and acc: "mc_accounts (initialize_grid, ?N0) (W, N') s (mc_observed mode \<gamma> s trs)"
    by blast
  define U where "U = mc_observed mode \<gamma> s trs"
  have zero: "int_get ?N0 s = 0" "grid_get initialize_grid s = 0"
    using assms(2)
    by (auto simp: int_get_def grid_get_def initialize_grid_def in_grid_def GRID_SIZE_def)
  note a = acc[unfolded mc_accounts_def fst_conv snd_conv zero, folded U_def]
  have c: "int_get N' s = int (length U)"
    using a[THEN conjunct1] by simp
  have v: "real_of_int (int_get N' s) * grid_get W s = sum_list U"
    using a[THEN conjunct2, THEN conjunct1] by simp
  have e: "U = [] \<longrightarrow> grid_get W s = 0"
    using a[THEN conjunct2, THEN conjunct2] by simp
  have "grid_get W s = (if U = [] then 0 else sum_list U / real (length U))"
  proof (cases "U = []")
    case True
    with e show ?thesis by simp
  next
    case False
    then have "real (length U) \<noteq> 0" by simp
    moreover from v have "real_of_int (int (length U)) * grid_get W s = sum_list U"
      unfolding c .
    then have "real (length U) * grid_get W s = sum_list U" by simp
    ultimately show ?thesis using False by (simp add: field_simps)
  qed
  with trs show ?thesis unfolding U_def by blast
qed

lemma mc_prediction_returns:
  "mc_trajectories episodes rnd = Some (trs, rnd') \<Longrightarrow> mc_prediction mode \<gamma> episodes rnd \<noteq> None"
  using mc_episodes_returns[of episodes rnd trs rnd' mode \<gamma>]
  by (fastforce simp: mc_prediction_def)

text \<open>
  C9. The Monte Carlo mode, as the specification words it (the notebook is not among the
  sources). An episode is a full trajectory: the recorded states are the walk from the start
  state along the actions drawn, each with the reward \<open>-1\<close> and none of them terminal, and the
  walk after the last recorded state is at the terminal state; a trajectory is returned whenever
  the walk along the draws reaches the terminal state. The returns computed backward from the
  end of the episode are the discounted sums \<open>G_t = \<Sum>k. \<gamma>^k R_(t+k)\<close> over the rest of the
  episode. An update moves the value of the visited state toward the observed return, to the
  mean of the returns counted for it. In first-visit mode a state visited in the episode is
  updated once, in every-visit mode once for each of its visits. The estimator runs exactly the
  configured number of episodes, each from the start state given by two draws, and the value it
  returns for a state of the grid is the mean of the returns observed for that state over these
  episodes (at its first visit of each episode in first-visit mode, at all its visits in
  every-visit mode), and \<open>0\<close> for a state that was never visited. It returns a table whenever
  the draws hold that many episodes.
\<close>

theorem monte_carlo_mode:
  "(\<forall>tr rnd'. mc_trajectory s0 rnd = Some (tr, rnd')
        \<longrightarrow> rnd = take (length tr) rnd @ rnd'
            \<and> (\<forall>i<length tr. tr ! i = (mc_walk s0 (take i rnd), - 1)
                               \<and> \<not> is_terminal (mc_walk s0 (take i rnd)))
            \<and> is_terminal (mc_walk s0 (take (length tr) rnd)))
   \<and> ((\<exists>n\<le>length rnd. is_terminal (mc_walk s0 (take n rnd))) \<longrightarrow> mc_trajectory s0 rnd \<noteq> None)
   \<and> length (mc_returns \<gamma> rs) = length rs
   \<and> (\<forall>t<length rs.
         mc_returns \<gamma> rs ! t = (\<Sum>k<length rs - t. \<gamma> ^ k * real_of_int (rs ! (t + k))))
   \<and> (grid_shape V \<and> int_shape N \<and> in_grid s \<and> 0 \<le> int_get N s \<longrightarrow>
         int_get (snd (mc_update (V, N) s G)) s = int_get N s + 1
         \<and> grid_get (fst (mc_update (V, N) s G)) s
             = grid_get V s + (G - grid_get V s) / real_of_int (int_get N s + 1)
         \<and> \<bar>grid_get (fst (mc_update (V, N) s G)) s - G\<bar> \<le> \<bar>grid_get V s - G\<bar>)
   \<and> (int_shape N \<and> in_grid s \<and> (\<forall>x\<in>set visits. in_grid (fst x)) \<longrightarrow>
         int_get (snd (mc_process FirstVisit [] visits (V, N))) s
           = int_get N s + (if s \<in> fst ` set visits then 1 else 0)
         \<and> int_get (snd (mc_process EveryVisit [] visits (V, N))) s
           = int_get N s + int (count_list (map fst visits) s))
   \<and> (\<forall>W. draws_ok draws \<and> in_grid s \<and> mc_prediction mode \<gamma> episodes draws = Some W \<longrightarrow>
         (\<exists>trs rest. mc_trajectories episodes draws = Some (trs, rest) \<and> length trs = episodes
            \<and> grid_get W s
                = (if mc_observed mode \<gamma> s trs = [] then 0
                   else sum_list (mc_observed mode \<gamma> s trs)
                          / real (length (mc_observed mode \<gamma> s trs)))))
   \<and> (\<forall>trs rest. mc_trajectories episodes draws = Some (trs, rest)
         \<longrightarrow> mc_prediction mode \<gamma> episodes draws \<noteq> None)"
proof (intro conjI allI impI)
  show "rnd = take (length tr) rnd @ rnd'"
    and "is_terminal (mc_walk s0 (take (length tr) rnd))"
    if "mc_trajectory s0 rnd = Some (tr, rnd')" for tr rnd'
    using mc_trajectory_path[OF that] by blast+
  show "tr ! i = (mc_walk s0 (take i rnd), - 1)"
    and "\<not> is_terminal (mc_walk s0 (take i rnd))"
    if "mc_trajectory s0 rnd = Some (tr, rnd')" "i < length tr" for tr rnd' i
    using mc_trajectory_path[OF that(1)] that(2) by blast+
  show "mc_trajectory s0 rnd \<noteq> None" if "\<exists>n\<le>length rnd. is_terminal (mc_walk s0 (take n rnd))"
    using that by (rule mc_trajectory_complete)
  show "length (mc_returns \<gamma> rs) = length rs" by (rule mc_returns_length)
  show "mc_returns \<gamma> rs ! t = (\<Sum>k<length rs - t. \<gamma> ^ k * real_of_int (rs ! (t + k)))"
    if "t < length rs" for t
    using that by (rule mc_returns_nth)
  show "\<exists>trs rest. mc_trajectories episodes draws = Some (trs, rest) \<and> length trs = episodes
            \<and> grid_get W s
                = (if mc_observed mode \<gamma> s trs = [] then 0
                   else sum_list (mc_observed mode \<gamma> s trs)
                          / real (length (mc_observed mode \<gamma> s trs)))"
    if "draws_ok draws \<and> in_grid s \<and> mc_prediction mode \<gamma> episodes draws = Some W" for W
    using that mc_prediction_mean[of draws s mode \<gamma> episodes W] by blast
  show "mc_prediction mode \<gamma> episodes draws \<noteq> None"
    if "mc_trajectories episodes draws = Some (trs, rest)" for trs rest
    using that by (rule mc_prediction_returns)
next
  assume h: "grid_shape V \<and> int_shape N \<and> in_grid s \<and> 0 \<le> int_get N s"
  then have h': "grid_shape V" "int_shape N" "in_grid s" "0 \<le> int_get N s" by simp_all
  from mc_update_toward[OF h', of G]
  show "int_get (snd (mc_update (V, N) s G)) s = int_get N s + 1"
    and "grid_get (fst (mc_update (V, N) s G)) s
        = grid_get V s + (G - grid_get V s) / real_of_int (int_get N s + 1)"
    and "\<bar>grid_get (fst (mc_update (V, N) s G)) s - G\<bar> \<le> \<bar>grid_get V s - G\<bar>"
    by blast+
next
  assume h: "int_shape N \<and> in_grid s \<and> (\<forall>x\<in>set visits. in_grid (fst x))"
  from mc_process_first_visit[of "(V, N)" s visits "[]"] h
  show "int_get (snd (mc_process FirstVisit [] visits (V, N))) s
      = int_get N s + (if s \<in> fst ` set visits then 1 else 0)"
    by simp
  from mc_process_every_visit[of "(V, N)" s visits "[]"] h
  show "int_get (snd (mc_process EveryVisit [] visits (V, N))) s
      = int_get N s + int (count_list (map fst visits) s)"
    by simp
qed

text \<open>One episode from \<open>(0, 1)\<close>: RIGHT to \<open>(0, 2)\<close>, LEFT back to \<open>(0, 1)\<close>, LEFT to the
  terminal state. The state \<open>(0, 1)\<close> is visited twice, with the returns \<open>-2.71\<close> and \<open>-1\<close>:
  its value is \<open>-2.71\<close> in first-visit mode and their mean \<open>-1.855\<close> in every-visit mode.\<close>

theorem monte_carlo_mode_witness:
  "mc_trajectory (0, 1) [3, 2, 2, 2] = Some ([((0, 1), - 1), ((0, 2), - 1), ((0, 1), - 1)], [2])
   \<and> [((0, 1), - 1), ((0, 2), - 1), ((0, 1), - 1)] ! 1
       = (mc_walk (0, 1) (take 1 [3, 2, 2, 2]), - 1 :: int)
   \<and> is_terminal (mc_walk (0, 1) (take 3 [3, 2, 2, 2]))
   \<and> mc_returns (9 / 10) [- 1, - 1, - 1] = [- (271 / 100), - (19 / 10), - 1]
   \<and> mc_returns (9 / 10) [- 1, - 1, - 1] ! 0
       = (\<Sum>k<3. (9 / 10) ^ k * real_of_int ([- 1, - 1, - 1] ! (0 + k)))
   \<and> int_get (snd (mc_process FirstVisit []
         [((0, 1), - (271 / 100)), ((0, 2), - (19 / 10)), ((0, 1), - 1)]
         (initialize_grid, [[0, 0, 0, 0], [0, 0, 0, 0], [0, 0, 0, 0], [0, 0, 0, 0]]))) (0, 1) = 1
   \<and> int_get (snd (mc_process EveryVisit []
         [((0, 1), - (271 / 100)), ((0, 2), - (19 / 10)), ((0, 1), - 1)]
         (initialize_grid, [[0, 0, 0, 0], [0, 0, 0, 0], [0, 0, 0, 0], [0, 0, 0, 0]]))) (0, 1) = 2
   \<and> draws_ok [0, 1, 3, 2, 2, 2]
   \<and> mc_trajectories 1 [0, 1, 3, 2, 2, 2]
       = Some ([[((0, 1), - 1), ((0, 2), - 1), ((0, 1), - 1)]], [2])
   \<and> mc_observed FirstVisit (9 / 10) (0, 1) [[((0, 1), - 1), ((0, 2), - 1), ((0, 1), - 1)]]
       = [- (271 / 100)]
   \<and> mc_observed EveryVisit (9 / 10) (0, 1) [[((0, 1), - 1), ((0, 2), - 1), ((0, 1), - 1)]]
       = [- (271 / 100), - 1]
   \<and> mc_prediction FirstVisit (9 / 10) 1 [0, 1, 3, 2, 2, 2]
       = Some [[0, - (271 / 100), - (19 / 10), 0], [0, 0, 0, 0], [0, 0, 0, 0], [0, 0, 0, 0]]
   \<and> mc_prediction EveryVisit (9 / 10) 1 [0, 1, 3, 2, 2, 2]
       = Some [[0, - (371 / 200), - (19 / 10), 0], [0, 0, 0, 0], [0, 0, 0, 0], [0, 0, 0, 0]]
   \<and> grid_get [[0, - (371 / 200), - (19 / 10), 0], [0, 0, 0, 0], [0, 0, 0, 0], [0, 0, 0, 0]] (0, 1)
       = sum_list (mc_observed EveryVisit (9 / 10) (0, 1)
                     [[((0, 1), - 1), ((0, 2), - 1), ((0, 1), - 1)]])
           / real (length (mc_observed EveryVisit (9 / 10) (0, 1)
                     [[((0, 1), - 1), ((0, 2), - 1), ((0, 1), - 1)]]))"
proof -
  let ?N = "[[0, 0, 0, 0], [0, 0, 0, 0], [0, 0, 0, 0], [0, 0, 0, 0]] :: int list list"
  let ?visits = "[((0, 1), - (271 / 100)), ((0, 2), - (19 / 10)), ((0, 1), - 1)] :: (state \<times> real) list"
  let ?tr = "[((0, 1), - 1), ((0, 2), - 1), ((0, 1), - 1)] :: (state \<times> int) list"
  let ?W = "[[0, - (371 / 200), - (19 / 10), 0], [0, 0, 0, 0], [0, 0, 0, 0], [0, 0, 0, 0]] :: grid"
  have tr: "mc_trajectory (0, 1) [3, 2, 2, 2] = Some (?tr, [2])"
    by (simp add: is_terminal_def env_step_def action_offset_def displaced_def in_grid_def
        GRID_SIZE_def)
  have ret: "mc_returns (9 / 10) [- 1, - 1, - 1] = [- (271 / 100), - (19 / 10), - 1]" by simp
  have hyp: "int_shape ?N \<and> in_grid (0, 1) \<and> (\<forall>x\<in>set ?visits. in_grid (fst x))"
    by (simp add: int_shape_def in_grid_def GRID_SIZE_def)
  have zero: "int_get ?N (0, 1) = 0" by (simp add: int_get_def)
  have ok: "draws_ok [0, 1, 3, 2, 2, 2]" by (simp add: draws_ok_def)
  have s: "in_grid (0, 1)" by (simp add: in_grid_def GRID_SIZE_def)
  have trs: "mc_trajectories 1 [0, 1, 3, 2, 2, 2] = Some ([?tr], [2])"
    using tr by simp
  have obs: "mc_observed FirstVisit (9 / 10) (0, 1) [?tr] = [- (271 / 100)]"
    "mc_observed EveryVisit (9 / 10) (0, 1) [?tr] = [- (271 / 100), - 1]"
    by (simp_all add: mc_observed_def mc_updates_def mc_visits_def)
  note inst = monte_carlo_mode[of "(0, 1)" "[3, 2, 2, 2]" "9 / 10" "[- 1, - 1, - 1]"
      initialize_grid ?N "(0, 1)" "- (271 / 100)" ?visits "[0, 1, 3, 2, 2, 2]" EveryVisit 1]
  note p = inst[THEN conjunct1, rule_format, OF tr]
  have path: "?tr ! 1 = (mc_walk (0, 1) (take 1 [3, 2, 2, 2]), - 1)"
    "is_terminal (mc_walk (0, 1) (take 3 [3, 2, 2, 2]))"
    using p[THEN conjunct2, THEN conjunct1, rule_format, of 1] p[THEN conjunct2, THEN conjunct2]
    by simp_all
  have sum: "mc_returns (9 / 10) [- 1, - 1, - 1] ! 0
      = (\<Sum>k<3. (9 / 10) ^ k * real_of_int ([- 1, - 1, - 1] ! (0 + k)))"
    using inst[THEN conjunct2, THEN conjunct2, THEN conjunct2, THEN conjunct1, rule_format, of 0]
    by (simp add: eval_nat_numeral)
  have counts:
    "int_get (snd (mc_process FirstVisit [] ?visits (initialize_grid, ?N))) (0, 1) = 1"
    "int_get (snd (mc_process EveryVisit [] ?visits (initialize_grid, ?N))) (0, 1) = 2"
    using inst[THEN conjunct2, THEN conjunct2, THEN conjunct2, THEN conjunct2, THEN conjunct2,
        THEN conjunct1, rule_format, OF hyp]
    by (simp_all only: zero) simp_all
  from inst[THEN conjunct2, THEN conjunct2, THEN conjunct2, THEN conjunct2, THEN conjunct2,
      THEN conjunct2, THEN conjunct1, rule_format, of ?W]
    ok s mc_prediction_every_visit_example
  obtain trs' rest where
    t': "mc_trajectories 1 [0, 1, 3, 2, 2, 2] = Some (trs', rest)"
    and m: "grid_get ?W (0, 1)
        = (if mc_observed EveryVisit (9 / 10) (0, 1) trs' = [] then 0
           else sum_list (mc_observed EveryVisit (9 / 10) (0, 1) trs')
                  / real (length (mc_observed EveryVisit (9 / 10) (0, 1) trs')))"
    by blast
  from t' trs have "trs' = [?tr]" by simp
  with m obs(2) have mean: "grid_get ?W (0, 1)
      = sum_list (mc_observed EveryVisit (9 / 10) (0, 1) [?tr])
          / real (length (mc_observed EveryVisit (9 / 10) (0, 1) [?tr]))"
    by simp
  from tr path ret sum counts ok trs obs
    mc_prediction_first_visit_example mc_prediction_every_visit_example mean
  show ?thesis by (intro conjI) assumption+
qed

end
